theory Spec2Isabelle
  imports Main "HOL-Library.Sublist" "HOL-Library.Monad_Syntax"
begin

section \<open>Go string primitives used by the client\<close>

text \<open>
  Go strings are byte sequences; they are modelled as \<open>string\<close> (a \<open>char list\<close>).
  \<open>strings.Index\<close> returns the position of the first occurrence of \<open>sep\<close> or \<open>-1\<close>;
  here \<open>None\<close> stands for \<open>-1\<close>, so the source's test \<open>i < 0\<close> is \<open>Index s sep = None\<close>.
\<close>

fun Index :: "string \<Rightarrow> string \<Rightarrow> nat option" where
  "Index [] sep = (if sep = [] then Some 0 else None)"
| "Index (c # cs) sep =
     (if prefix sep (c # cs) then Some 0 else map_option Suc (Index cs sep))"

text \<open>\<open>strings.LastIndex\<close>: the position of the last occurrence, or \<open>None\<close> for \<open>-1\<close>.\<close>

definition LastIndex :: "string \<Rightarrow> string \<Rightarrow> nat option" where
  "LastIndex s sep =
     map_option (\<lambda>i. length s - length sep - i) (Index (rev s) (rev sep))"

definition Contains :: "string \<Rightarrow> string \<Rightarrow> bool" where
  "Contains s sub = (Index s sub \<noteq> None)"

definition HasPrefix :: "string \<Rightarrow> string \<Rightarrow> bool" where
  "HasPrefix s p = prefix p s"

definition HasSuffix :: "string \<Rightarrow> string \<Rightarrow> bool" where
  "HasSuffix s p = suffix p s"

definition TrimPrefix :: "string \<Rightarrow> string \<Rightarrow> string" where
  "TrimPrefix s p = (if HasPrefix s p then drop (length p) s else s)"

definition TrimSuffix :: "string \<Rightarrow> string \<Rightarrow> string" where
  "TrimSuffix s p = (if HasSuffix s p then take (length s - length p) s else s)"

text \<open>
  \<open>strings.Replace(s, old, new, -1)\<close> is only called with one-byte \<open>old\<close> and \<open>new\<close>
  (slash against backslash), which is a map over the bytes.
\<close>

definition ReplaceChar :: "string \<Rightarrow> char \<Rightarrow> char \<Rightarrow> string" where
  "ReplaceChar s old new = map (\<lambda>c. if c = old then new else c) s"

text \<open>
  A slice expression \<open>s[lo:hi]\<close> panics when the bounds are out of range; the panic is the
  value \<open>None\<close>.
\<close>

definition slice :: "string \<Rightarrow> nat \<Rightarrow> nat \<Rightarrow> string option" where
  "slice s lo hi =
     (if lo \<le> hi \<and> hi \<le> length s then Some (take (hi - lo) (drop lo s)) else None)"

text \<open>
  \<open>strings.SplitN(s, sep, n)\<close> for a non-empty \<open>sep\<close> and \<open>n \<ge> 0\<close>: at most \<open>n\<close> pieces, the
  last one the unsplit remainder. \<open>strings.Split(s, sep)\<close> is \<open>SplitN\<close> with as many pieces as
  there are occurrences plus one; \<open>length s + 1\<close> pieces are always enough.
\<close>

fun SplitN :: "string \<Rightarrow> string \<Rightarrow> nat \<Rightarrow> string list" where
  "SplitN s sep 0 = []"
| "SplitN s sep (Suc 0) = [s]"
| "SplitN s sep (Suc (Suc n)) =
     (case Index s sep of
        None \<Rightarrow> [s]
      | Some i \<Rightarrow> take i s # SplitN (drop (i + length sep) s) sep (Suc n))"

definition Split :: "string \<Rightarrow> string \<Rightarrow> string list" where
  "Split s sep = SplitN s sep (Suc (length s))"

text \<open>
  \<open>filepath.Match\<close> for patterns made of literal bytes and \<open>*\<close> only (the two patterns of
  \<open>isVirtualHostStyle\<close> have no \<open>?\<close>, no character class and no escape): \<open>*\<close> matches any
  run of bytes other than the path separator \<open>psep\<close>.
\<close>

fun Match :: "char \<Rightarrow> string \<Rightarrow> string \<Rightarrow> bool" where
  "Match psep [] name = (name = [])"
| "Match psep (p # ps) [] = (p = CHR ''*'' \<and> Match psep ps [])"
| "Match psep (p # ps) (c # cs) =
     (if p = CHR ''*''
      then Match psep ps (c # cs) \<or> (c \<noteq> psep \<and> Match psep (p # ps) cs)
      else p = c \<and> Match psep ps cs)"

section \<open>The location URL model (package client)\<close>

datatype URLType = Object | Filesystem

record URL =
  Type :: URLType
  Scheme :: string
  Host :: string
  Path :: string
  SchemeSeparator :: string
  Separator :: char

text \<open>
  \<open>runtime.GOOS\<close> is a parameter \<open>goos\<close> of everything that reads it;
  \<open>filepath.Separator\<close> is the backslash on Windows and the slash elsewhere.
\<close>

definition backslash :: char where
  "backslash = CHR 0x5C"

definition filepath_Separator :: "string \<Rightarrow> char" where
  "filepath_Separator goos = (if goos = ''windows'' then backslash else CHR ''/'')"

text \<open>The regular expression \<open>^[a-zA-Z]+$\<close> of \<open>getScheme\<close>.\<close>

definition isLetter :: "char \<Rightarrow> bool" where
  "isLetter c =
     (let n = (of_char c :: nat) in (97 \<le> n \<and> n \<le> 122) \<or> (65 \<le> n \<and> n \<le> 90))"

definition validScheme :: "string \<Rightarrow> bool" where
  "validScheme scheme = (scheme \<noteq> [] \<and> list_all isLetter scheme)"

definition getScheme :: "string \<Rightarrow> string \<times> string" where
  "getScheme rawurl =
     (case Split rawurl ''://'' of
        [scheme, r] \<Rightarrow>
          (let uri = ''//'' @ r in
           if uri \<noteq> [] \<and> validScheme scheme then (scheme, uri) else ([], rawurl))
      | _ \<Rightarrow> ([], rawurl))"

definition splitSpecial :: "string \<Rightarrow> string \<Rightarrow> bool \<Rightarrow> (string \<times> string) option" where
  "splitSpecial s delimiter cutdelimiter =
     (case Index s delimiter of
        None \<Rightarrow> Some (s, [])
      | Some i \<Rightarrow>
          if cutdelimiter
          then do { a \<leftarrow> slice s 0 i; b \<leftarrow> slice s (i + length delimiter) (length s); Some (a, b) }
          else do { a \<leftarrow> slice s 0 i; b \<leftarrow> slice s i (length s); Some (a, b) })"

definition getHost :: "string \<Rightarrow> string" where
  "getHost authority = (case LastIndex authority ''@'' of Some i \<Rightarrow> [] | None \<Rightarrow> authority)"

definition filesystemURL :: "string \<Rightarrow> string \<Rightarrow> URL" where
  "filesystemURL goos rest =
     \<lparr>Type = Filesystem, Scheme = [], Host = [], Path = rest, SchemeSeparator = [],
      Separator = filepath_Separator goos\<rparr>"

definition NewURL :: "string \<Rightarrow> string \<Rightarrow> URL option" where
  "NewURL goos urlStr =
     (case getScheme urlStr of (scheme, rest0) \<Rightarrow>
      do {
        (rest, _) \<leftarrow> splitSpecial rest0 ''?'' True;
        if HasPrefix rest ''//''
        then do {
          tl2 \<leftarrow> slice rest 2 (length rest);
          (authority, rest1) \<leftarrow> splitSpecial tl2 ''/'' False;
          let rest2 = (if rest1 = [] then ''/'' else rest1);
          let host = getHost authority;
          if host \<noteq> [] \<and> (scheme = ''http'' \<or> scheme = ''https'')
          then Some \<lparr>Type = Object, Scheme = scheme, Host = host, Path = rest2,
                      SchemeSeparator = ''://'', Separator = CHR ''/''\<rparr>
          else Some (filesystemURL goos rest2)
        }
        else Some (filesystemURL goos rest)
      })"

text \<open>
  \<open>JoinURLs\<close> writes the joined path into \<open>url1\<close> and returns it; the model returns the
  updated record.
\<close>

definition JoinURLs :: "string \<Rightarrow> URL \<Rightarrow> URL \<Rightarrow> URL" where
  "JoinURLs goos url1 url2 =
     (let url1Path = (if goos = ''windows'' then ReplaceChar (Path url1) backslash CHR ''/''
                      else Path url1);
          url2Path = (if goos = ''windows'' then ReplaceChar (Path url2) backslash CHR ''/''
                      else Path url2);
          joined = (if HasSuffix url1Path ''/''
                    then url1Path @ TrimPrefix url2Path ''/''
                    else url1Path @ ''/'' @ TrimPrefix url2Path ''/'')
      in case Type url1 of
           Object \<Rightarrow> url1\<lparr>Path := joined\<rparr>
         | Filesystem \<Rightarrow>
             url1\<lparr>Path := (if goos = ''windows'' then ReplaceChar joined CHR ''/'' backslash
                            else joined)\<rparr>)"

text \<open>\<open>URL.String\<close>: the canonical form.\<close>

definition String :: "string \<Rightarrow> URL \<Rightarrow> string" where
  "String goos u =
     (case Type u of
        Filesystem \<Rightarrow> Path u
      | Object \<Rightarrow>
          Scheme u @ '':'' @ ''//'' @ Host u @
          (if goos = ''windows''
           then (if Path u \<noteq> [] \<and> hd (Path u) \<noteq> backslash \<and> Host u \<noteq> [] \<and> hd (Path u) \<noteq> CHR ''/''
                 then ''/'' else []) @ ReplaceChar (Path u) backslash CHR ''/''
           else (if Path u \<noteq> [] \<and> hd (Path u) \<noteq> CHR ''/'' \<and> Host u \<noteq> []
                 then ''/'' else []) @ Path u))"

text \<open>
  The closed form of \<open>NewURL\<close> that the proofs work with: the two calls of
  \<open>splitSpecial\<close> written with \<open>takeWhile\<close> and \<open>dropWhile\<close>. Lemma \<open>NewURL_eq\<close>
  shows that \<open>NewURL\<close> returns exactly this value and never panics.
\<close>

definition parsed :: "string \<Rightarrow> string \<Rightarrow> URL" where
  "parsed goos s =
     (case getScheme s of (scheme, rest0) \<Rightarrow>
        let rest = takeWhile (\<lambda>x. x \<noteq> CHR ''?'') rest0 in
        if prefix ''//'' rest
        then (let t = drop 2 rest;
                  a = takeWhile (\<lambda>x. x \<noteq> CHR ''/'') t;
                  p = dropWhile (\<lambda>x. x \<noteq> CHR ''/'') t;
                  p' = (if p = [] then ''/'' else p)
              in if a \<noteq> [] \<and> CHR ''@'' \<notin> set a \<and> (scheme = ''http'' \<or> scheme = ''https'')
                 then \<lparr>Type = Object, Scheme = scheme, Host = a, Path = p',
                        SchemeSeparator = ''://'', Separator = CHR ''/''\<rparr>
                 else filesystemURL goos p')
        else filesystemURL goos rest)"

text \<open>
  The reading of section 4.1 of the specification, for comparison with \<open>NewURL\<close>: split on the
  first \<open>://\<close>, the scheme is \<open>http\<close> or \<open>https\<close>, the authority runs up to the next
  \<open>/\<close>, is not empty and has no \<open>@\<close>.
\<close>

definition spec_object_form :: "string \<Rightarrow> bool" where
  "spec_object_form s =
     (case Index s ''://'' of
        None \<Rightarrow> False
      | Some i \<Rightarrow>
          (let scheme = take i s;
               authority = takeWhile (\<lambda>c. c \<noteq> CHR ''/'') (drop (i + 3) s)
           in (scheme = ''http'' \<or> scheme = ''https'') \<and> authority \<noteq> [] \<and>
              CHR ''@'' \<notin> set authority))"

text \<open>
  Paths compared with the slash as the only separator: what \<open>JoinURLs\<close> computes with on
  Windows before it writes backslashes back. Used to state the join property for every platform.
\<close>

definition slashed :: "string \<Rightarrow> string \<Rightarrow> string" where
  "slashed goos p = (if goos = ''windows'' then ReplaceChar p backslash CHR ''/'' else p)"

section \<open>The S3 client (package s3)\<close>

text \<open>
  The object-storage SDK (\<open>minio.CloudStorageAPI\<close>) is outside the repository. Its answers
  are parameters: a record of the calls that \<open>Stat\<close> and \<open>List\<close> make. A channel returned by the
  SDK is the list of the items received from it until it is closed. An SDK error is either an
  \<open>ErrorResponse\<close> with its code, or any other error value; \<open>minio.ToErrorResponse\<close> returns
  \<open>nil\<close> for the latter.
\<close>

datatype api_error = ErrorResponse string | OtherError string

definition ToErrorResponse :: "api_error \<Rightarrow> string option" where
  "ToErrorResponse err = (case err of ErrorResponse code \<Rightarrow> Some code | OtherError _ \<Rightarrow> None)"

type_synonym time = nat

record BucketStat =
  bucket_Name :: string
  bucket_CreationDate :: time
  bucket_Err :: "api_error option"

record ObjectStat =
  object_Key :: string
  object_LastModified :: time
  object_Size :: int
  object_Err :: "api_error option"

record ObjectMultipartStat =
  upload_Key :: string
  upload_Initiated :: time
  upload_Size :: int
  upload_Err :: "api_error option"

record CloudStorageAPI =
  ListBuckets :: "BucketStat list"
  StatObject :: "string \<Rightarrow> string \<Rightarrow> api_error + ObjectStat"
  ListObjects :: "string \<Rightarrow> string \<Rightarrow> bool \<Rightarrow> ObjectStat list"
  ListIncompleteUploads :: "string \<Rightarrow> string \<Rightarrow> bool \<Rightarrow> ObjectMultipartStat list"
  BucketExists :: "string \<Rightarrow> api_error option"

text \<open>
  \<open>os.FileMode\<close> as far as the client uses it: the directory bit, the temporary bit, or
  permission bits only (\<open>os.FileMode(0664)\<close>, and \<open>0\<close> for the zero value).
\<close>

datatype FileMode = ModeDir | ModeTemporary | ModePerm nat

text \<open>\<open>os.FileMode(0664)\<close>: octal 664 is 436.\<close>

definition mode0664 :: FileMode where
  "mode0664 = ModePerm 436"

definition IsDir :: "FileMode \<Rightarrow> bool" where
  "IsDir m = (m = ModeDir)"

text \<open>The errors of package client that the modelled functions build, and a wrapped SDK error.\<close>

datatype error = ApiError api_error | PathNotFound string

record Content =
  content_URL :: URL
  content_Time :: time
  content_Size :: int
  content_Type :: FileMode
  content_Err :: "error option"

text \<open>The zero values of \<open>URL\<close> and \<open>Content\<close> (\<open>Object\<close> is \<open>iota = 0\<close>).\<close>

definition zeroURL :: URL where
  "zeroURL = \<lparr>Type = Object, Scheme = [], Host = [], Path = [], SchemeSeparator = [],
              Separator = CHR 0x00\<rparr>"

definition zeroContent :: Content where
  "zeroContent = \<lparr>content_URL = zeroURL, content_Time = 0, content_Size = 0,
                  content_Type = ModePerm 0, content_Err = None\<rparr>"

text \<open>
  The client. Its mutex is not modelled: \<open>Stat\<close> and \<open>List\<close> are modelled one call at a time.
\<close>

record s3Client =
  api :: CloudStorageAPI
  hostURL :: URL
  virtualStyle :: bool

definition isVirtualHostStyle :: "string \<Rightarrow> string \<Rightarrow> bool" where
  "isVirtualHostStyle goos host =
     (let matchS3 = Match (filepath_Separator goos) ''*.s3*.amazonaws.com'' host;
          matchGoogle = Match (filepath_Separator goos) ''*.storage.googleapis.com'' host
      in matchS3 \<or> matchGoogle)"

text \<open>
  \<open>New\<close>: the transport and signature configuration only concern the SDK handle, which is the
  parameter \<open>a\<close> here; the result is \<open>None\<close> only if parsing the host URL panicked.
\<close>

definition New :: "string \<Rightarrow> CloudStorageAPI \<Rightarrow> string \<Rightarrow> s3Client option" where
  "New goos a configHostURL =
     do {
       u \<leftarrow> NewURL goos configHostURL;
       Some \<lparr>api = a, hostURL = u, virtualStyle = isVirtualHostStyle goos (Host u)\<rparr>
     }"

text \<open>
  \<open>url2BucketAndObject\<close>. The slice \<open>Host[:hostIndex-1]\<close> is in range whenever
  \<open>hostIndex > 0\<close>, so it is written with \<open>take\<close>.
\<close>

definition url2BucketAndObject :: "s3Client \<Rightarrow> string \<times> string" where
  "url2BucketAndObject c =
     (let path0 = Path (hostURL c);
          path =
            (if virtualStyle c
             then (let hostIndex = (case Index (Host (hostURL c)) ''s3'' of
                                      None \<Rightarrow> Index (Host (hostURL c)) ''storage.googleapis''
                                    | Some i \<Rightarrow> Some i)
                   in case hostIndex of
                        None \<Rightarrow> path0
                      | Some i \<Rightarrow>
                          if 0 < i
                          then [Separator (hostURL c)] @ take (i - 1) (Host (hostURL c)) @ Path (hostURL c)
                          else path0)
             else path0);
          splits = SplitN path [Separator (hostURL c)] 3
      in case splits of
           [_, b] \<Rightarrow> (b, [])
         | [_, b, ob] \<Rightarrow> (b, ob)
         | _ \<Rightarrow> ([], []))"

text \<open>The first bucket of the listing that carries an error, if any.\<close>

fun firstBucketErr :: "BucketStat list \<Rightarrow> api_error option" where
  "firstBucketErr [] = None"
| "firstBucketErr (b # bs) = (case bucket_Err b of Some e \<Rightarrow> Some e | None \<Rightarrow> firstBucketErr bs)"

definition dirContent :: "URL \<Rightarrow> Content" where
  "dirContent u = zeroContent\<lparr>content_URL := u, content_Type := ModeDir\<rparr>"

text \<open>
  \<open>Stat\<close> returns \<open>(nil, err)\<close> on every failure and \<open>(content, nil)\<close> otherwise: a sum.
\<close>

definition Stat :: "s3Client \<Rightarrow> error + Content" where
  "Stat c =
     (case url2BucketAndObject c of (bucket, object) \<Rightarrow>
        if bucket = [] \<and> object = []
        then (case firstBucketErr (ListBuckets (api c)) of
                Some e \<Rightarrow> Inl (ApiError e)
              | None \<Rightarrow> Inr (dirContent (hostURL c)))
        else if object \<noteq> []
        then (case StatObject (api c) bucket object of
                Inl err \<Rightarrow>
                  (case ToErrorResponse err of
                     Some code \<Rightarrow>
                       if code = ''NoSuchKey''
                       then (let prefixName = TrimSuffix object [Separator (hostURL c)]
                                                @ [Separator (hostURL c)]
                             in case ListObjects (api c) bucket prefixName False of
                                  [] \<Rightarrow> Inl (PathNotFound (Path (hostURL c)))
                                | objectStat # _ \<Rightarrow>
                                    (case object_Err objectStat of
                                       Some e \<Rightarrow> Inl (ApiError e)
                                     | None \<Rightarrow> Inr (dirContent (hostURL c))))
                       else Inl (ApiError err)
                   | None \<Rightarrow> Inl (ApiError err))
              | Inr metadata \<Rightarrow>
                  Inr (zeroContent\<lparr>content_URL := hostURL c,
                                    content_Time := object_LastModified metadata,
                                    content_Size := object_Size metadata,
                                    content_Type := mode0664\<rparr>))
        else (case BucketExists (api c) bucket of
                Some err \<Rightarrow> Inl (ApiError err)
              | None \<Rightarrow> Inr (dirContent (hostURL c))))"

subsection \<open>Listing\<close>

text \<open>
  Each listing routine is a producer that sends contents into a channel and closes it when
  it returns. A routine is modelled by the list of the contents it sends before the close.
  \<open>filepath.Join\<close> and \<open>time.Now\<close> are parameters (\<open>join\<close>, \<open>now\<close>).
\<close>

definition errContent :: "api_error \<Rightarrow> Content" where
  "errContent e = zeroContent\<lparr>content_Err := Some (ApiError e)\<rparr>"

text \<open>
  A loop over a channel of the SDK whose body, for an item that carries an error, sends the
  error and returns from the routine, and otherwise sends \<open>mk item\<close>. The flag tells whether
  the routine has returned.
\<close>

fun emitUntilError ::
  "('a \<Rightarrow> api_error option) \<Rightarrow> ('a \<Rightarrow> Content) \<Rightarrow> 'a list \<Rightarrow> Content list \<times> bool" where
  "emitUntilError err mk [] = ([], False)"
| "emitUntilError err mk (x # xs) =
     (case err x of
        Some e \<Rightarrow> ([errContent e], True)
      | None \<Rightarrow> (case emitUntilError err mk xs of (ys, stopped) \<Rightarrow> (mk x # ys, stopped)))"

text \<open>The same loop with \<open>continue\<close> in place of \<open>return\<close>.\<close>

definition emitAndContinue ::
  "('a \<Rightarrow> api_error option) \<Rightarrow> ('a \<Rightarrow> Content) \<Rightarrow> 'a list \<Rightarrow> Content list" where
  "emitAndContinue err mk xs = map (\<lambda>x. case err x of Some e \<Rightarrow> errContent e | None \<Rightarrow> mk x) xs"

text \<open>
  The loop over \<open>ListBuckets\<close>: a bucket with an error sends the error and returns; otherwise
  \<open>body\<close> runs, and the loop goes on unless \<open>body\<close> has returned from the routine.
\<close>

fun bucketsUntilError ::
  "(BucketStat \<Rightarrow> Content list \<times> bool) \<Rightarrow> BucketStat list \<Rightarrow> Content list" where
  "bucketsUntilError body [] = []"
| "bucketsUntilError body (b # bs) =
     (case bucket_Err b of
        Some e \<Rightarrow> [errContent e]
      | None \<Rightarrow>
          (case body b of (ys, stopped) \<Rightarrow>
             if stopped then ys else ys @ bucketsUntilError body bs))"

text \<open>The path of an entry below a bucket; virtual-host-style clients leave the bucket out.\<close>

definition keyPath :: "(string list \<Rightarrow> string) \<Rightarrow> s3Client \<Rightarrow> string \<Rightarrow> string \<Rightarrow> string" where
  "keyPath join c bucketName key =
     (if virtualStyle c then join [[Separator (hostURL c)], key]
      else join [[Separator (hostURL c)], bucketName, key])"

definition uploadContent ::
  "(string list \<Rightarrow> string) \<Rightarrow> time \<Rightarrow> s3Client \<Rightarrow> string \<Rightarrow> ObjectMultipartStat \<Rightarrow> Content" where
  "uploadContent join now c bucketName object =
     (let url = (hostURL c)\<lparr>Path := keyPath join c bucketName (upload_Key object)\<rparr>
      in if HasSuffix (upload_Key object) [Separator (hostURL c)]
         then zeroContent\<lparr>content_URL := url, content_Time := now, content_Type := ModeDir\<rparr>
         else zeroContent\<lparr>content_URL := url, content_Size := upload_Size object,
                           content_Time := upload_Initiated object,
                           content_Type := ModeTemporary\<rparr>)"

definition listIncompleteInRoutine ::
  "(string list \<Rightarrow> string) \<Rightarrow> time \<Rightarrow> s3Client \<Rightarrow> Content list" where
  "listIncompleteInRoutine join now c =
     (case url2BucketAndObject c of (b, ob) \<Rightarrow>
        if b = [] \<and> ob = []
        then bucketsUntilError
               (\<lambda>bucket. emitUntilError upload_Err (uploadContent join now c (bucket_Name bucket))
                            (ListIncompleteUploads (api c) (bucket_Name bucket) ob False))
               (ListBuckets (api c))
        else fst (emitUntilError upload_Err (uploadContent join now c b)
                    (ListIncompleteUploads (api c) b ob False)))"

definition temporaryContent :: "URL \<Rightarrow> ObjectMultipartStat \<Rightarrow> Content" where
  "temporaryContent url object =
     zeroContent\<lparr>content_URL := url, content_Size := upload_Size object,
                  content_Time := upload_Initiated object, content_Type := ModeTemporary\<rparr>"

definition listIncompleteRecursiveInRoutine ::
  "(string list \<Rightarrow> string) \<Rightarrow> s3Client \<Rightarrow> Content list" where
  "listIncompleteRecursiveInRoutine join c =
     (case url2BucketAndObject c of (b, ob) \<Rightarrow>
        if b = [] \<and> ob = []
        then bucketsUntilError
               (\<lambda>bucket. emitUntilError upload_Err
                            (\<lambda>object. temporaryContent
                               ((hostURL c)\<lparr>Path := join [Path (hostURL c), bucket_Name bucket,
                                                           upload_Key object]\<rparr>) object)
                            (ListIncompleteUploads (api c) (bucket_Name bucket) ob True))
               (ListBuckets (api c))
        else fst (emitUntilError upload_Err
                    (\<lambda>object. temporaryContent
                       ((hostURL c)\<lparr>Path := keyPath join c b (upload_Key object)\<rparr>) object)
                    (ListIncompleteUploads (api c) b ob True)))"

definition fileContent :: "URL \<Rightarrow> ObjectStat \<Rightarrow> Content" where
  "fileContent url object =
     zeroContent\<lparr>content_URL := url, content_Size := object_Size object,
                  content_Time := object_LastModified object, content_Type := mode0664\<rparr>"

definition bucketContent :: "(string list \<Rightarrow> string) \<Rightarrow> s3Client \<Rightarrow> BucketStat \<Rightarrow> Content" where
  "bucketContent join c bucket =
     zeroContent\<lparr>content_URL := (hostURL c)\<lparr>Path := join [Path (hostURL c), bucket_Name bucket]\<rparr>,
                  content_Size := 0, content_Time := bucket_CreationDate bucket,
                  content_Type := ModeDir\<rparr>"

definition objectContent ::
  "(string list \<Rightarrow> string) \<Rightarrow> time \<Rightarrow> s3Client \<Rightarrow> string \<Rightarrow> ObjectStat \<Rightarrow> Content" where
  "objectContent join now c bucketName object =
     (let url = (hostURL c)\<lparr>Path := keyPath join c bucketName (object_Key object)\<rparr>
      in if HasSuffix (object_Key object) [Separator (hostURL c)]
         then zeroContent\<lparr>content_URL := url, content_Time := now, content_Type := ModeDir\<rparr>
         else fileContent url object)"

definition listInRoutine ::
  "(string list \<Rightarrow> string) \<Rightarrow> time \<Rightarrow> s3Client \<Rightarrow> Content list" where
  "listInRoutine join now c =
     (case url2BucketAndObject c of (b, ob) \<Rightarrow>
        if b = [] \<and> ob = []
        then bucketsUntilError (\<lambda>bucket. ([bucketContent join c bucket], False))
               (ListBuckets (api c))
        else if b \<noteq> [] \<and> \<not> HasSuffix (Path (hostURL c)) [Separator (hostURL c)] \<and> ob = []
        then (case BucketExists (api c) b of Some err \<Rightarrow> [errContent err] | None \<Rightarrow> [])
             @ [dirContent (hostURL c)]
        else (case StatObject (api c) b ob of
                Inr metadata \<Rightarrow> [fileContent (hostURL c) metadata]
              | Inl err \<Rightarrow>
                  fst (emitUntilError object_Err (objectContent join now c b)
                         (ListObjects (api c) b ob False))))"

definition listRecursiveInRoutine ::
  "(string list \<Rightarrow> string) \<Rightarrow> s3Client \<Rightarrow> Content list" where
  "listRecursiveInRoutine join c =
     (case url2BucketAndObject c of (b, ob) \<Rightarrow>
        if b = [] \<and> ob = []
        then bucketsUntilError
               (\<lambda>bucket.
                  (bucketContent join c bucket #
                   emitAndContinue object_Err
                     (\<lambda>object. fileContent
                        ((hostURL c)\<lparr>Path := join [Path (hostURL c), bucket_Name bucket,
                                                    object_Key object]\<rparr>) object)
                     (ListObjects (api c) (bucket_Name bucket) ob True),
                   False))
               (ListBuckets (api c))
        else emitAndContinue object_Err
               (\<lambda>object. fileContent
                  ((hostURL c)\<lparr>Path := keyPath join c b (object_Key object)\<rparr>) object)
               (ListObjects (api c) b ob True))"

definition List ::
  "(string list \<Rightarrow> string) \<Rightarrow> time \<Rightarrow> s3Client \<Rightarrow> bool \<Rightarrow> bool \<Rightarrow> Content list" where
  "List join now c recursive incomplete =
     (if incomplete
      then (if recursive then listIncompleteRecursiveInRoutine join c
            else listIncompleteInRoutine join now c)
      else (if recursive then listRecursiveInRoutine join c
            else listInRoutine join now c))"

text \<open>
  The property of claim C6 on a produced stream: a content that carries an error is the last
  one sent.
\<close>

fun errorTerminates :: "Content list \<Rightarrow> bool" where
  "errorTerminates [] = True"
| "errorTerminates (x # xs) = (if content_Err x \<noteq> None then xs = [] else errorTerminates xs)"

section \<open>Copy syntax validation (cp-url-syntax.go)\<close>

text \<open>
  \<open>url2Stat\<close> and \<open>isURLPrefixExists\<close> are not among the sources; they are parameters.
  \<open>url2Stat\<close> returns a content pointer and an error (the client is not used here); a \<open>nil\<close>
  pointer is \<open>None\<close>. \<open>fatalIf\<close> with an error ends the process: the outcome \<open>Fatal\<close>.
  Reading a field through a \<open>nil\<close> pointer panics: the outcome \<open>NilDereference\<close>.
  The guard \<open>err != nil && !isURLPrefixExists(srcURL)\<close> is the first inner \<open>case\<close>: it
  aborts with the error exactly when there is one and the prefix does not exist.
\<close>

datatype fatal =
    InvalidSourceCount | UnableToStatSource error | RecursiveRequired | TargetNotFolder

datatype outcome = Passed | Fatal fatal | NilDereference

text \<open>The two results of a \<open>Stat\<close> call as Go returns them.\<close>

definition statResults :: "error + Content \<Rightarrow> Content option \<times> error option" where
  "statResults r = (case r of Inl e \<Rightarrow> (None, Some e) | Inr content \<Rightarrow> (Some content, None))"

definition checkCopySyntaxTypeC ::
  "(string \<Rightarrow> Content option \<times> error option) \<Rightarrow> (string \<Rightarrow> bool) \<Rightarrow>
   string list \<Rightarrow> string \<Rightarrow> bool \<Rightarrow> outcome" where
  "checkCopySyntaxTypeC url2Stat isURLPrefixExists srcURLs tgtURL isRecursive =
     (case srcURLs of
        [srcURL] \<Rightarrow>
          (case url2Stat srcURL of (srcContent, err) \<Rightarrow>
             (case (if \<not> isURLPrefixExists srcURL then err else None) of
                Some e \<Rightarrow> Fatal (UnableToStatSource e)
              | None \<Rightarrow>
                  (case srcContent of
                     None \<Rightarrow> NilDereference
                   | Some sc \<Rightarrow>
                       if IsDir (content_Type sc) \<and> \<not> isRecursive then Fatal RecursiveRequired
                       else (case url2Stat tgtURL of
                               (tgtContent, Some _) \<Rightarrow> Passed
                             | (None, None) \<Rightarrow> NilDereference
                             | (Some tc, None) \<Rightarrow>
                                 if \<not> IsDir (content_Type tc) then Fatal TargetNotFolder
                                 else Passed))))
      | _ \<Rightarrow> Fatal InvalidSourceCount)"

section \<open>Configuration migration (config-migrate.go)\<close>

text \<open>
  A configuration document of version 5 or 6: both versions have the same shape. A Go map is
  a partial function; the order in which \<open>range\<close> visits its keys is unspecified, so it is a
  parameter \<open>order\<close>: a list of the keys. The document on disk is \<open>None\<close> when no configuration
  file exists. The process-wide defaults and \<open>globalMCConfigVersion\<close> are declared outside the
  sources and are parameters.

  A document with \<open>"alias": null\<close> loads with a \<open>nil\<close> alias map, and writing an entry into
  a \<open>nil\<close> map panics: the alias map is optional, \<open>None\<close> for \<open>nil\<close>. The host map of a loaded
  document is only read (\<open>range\<close> and the copy of its entries), and a \<open>nil\<close> map reads as
  the empty map, so it is a plain partial function.
\<close>

datatype runtime_panic = AssignToNilMap

record hostConfig =
  AccessKeyID :: string
  SecretAccessKey :: string
  API :: string

record config =
  Version :: string
  Aliases :: "(string \<rightharpoonup> string) option"
  Hosts :: "string \<rightharpoonup> hostConfig"

type_synonym configV5 = config
type_synonym configV6 = config

record globals =
  globalAccessKeyID :: string
  globalSecretAccessKey :: string
  globalMCConfigVersion :: string

definition zeroHostConfig :: hostConfig where
  "zeroHostConfig = \<lparr>AccessKeyID = [], SecretAccessKey = [], API = []\<rparr>"

text \<open>
  The second loop of \<open>migrateConfigV5ToV6\<close> stops (\<open>break\<close>) at the first visited host whose
  name contains \<open>s3\<close>.
\<close>

fun firstS3Host :: "string list \<Rightarrow> (string \<rightharpoonup> hostConfig) \<Rightarrow> (string \<times> hostConfig) option" where
  "firstS3Host [] hosts = None"
| "firstS3Host (host # rest) hosts =
     (case hosts host of
        None \<Rightarrow> firstS3Host rest hosts
      | Some hostConf \<Rightarrow>
          if Contains host ''s3'' then Some (host, hostConf) else firstS3Host rest hosts)"

text \<open>
  \<open>migrateConfigV5ToV6\<close>. The result is the panic, or the document on disk afterwards. The
  assignment \<open>confV6.Aliases["gcs"] = ...\<close> of line 403 comes first and writes into the loaded
  alias map.
\<close>

definition migrateConfigV5ToV6 ::
  "globals \<Rightarrow> string list \<Rightarrow> configV5 option \<Rightarrow> runtime_panic + configV6 option" where
  "migrateConfigV5ToV6 g order file =
     (case file of
        None \<Rightarrow> Inr None
      | Some mcConfigV5 \<Rightarrow>
          if Version mcConfigV5 = ''5''
          then (case Aliases mcConfigV5 of
                  None \<Rightarrow> Inl AssignToNilMap
                | Some loaded \<Rightarrow>
                   (let aliases = loaded(''gcs'' \<mapsto> ''https://storage.googleapis.com'');
                        hosts0 = Hosts mcConfigV5;
                        (hosts1, s3Conf) =
                          (case firstS3Host order hosts0 of
                             None \<Rightarrow> (hosts0, zeroHostConfig)
                           | Some (host, hostConf) \<Rightarrow>
                               (let h1 = (if AccessKeyID hostConf = globalAccessKeyID g \<or>
                                             SecretAccessKey hostConf = globalSecretAccessKey g
                                          then hosts0(host := None) else hosts0);
                                    h2 = (if AccessKeyID hostConf = [] \<or>
                                             SecretAccessKey hostConf = []
                                          then h1(host := None) else h1)
                                in (h2, hostConf)));
                        hosts2 = hosts1(''*s3*amazonaws.com'' \<mapsto> s3Conf,
                                        ''*storage.googleapis.com'' \<mapsto>
                                          \<lparr>AccessKeyID = globalAccessKeyID g,
                                           SecretAccessKey = globalSecretAccessKey g,
                                           API = ''S3v2''\<rparr>)
                    in Inr (Some \<lparr>Version = globalMCConfigVersion g, Aliases = Some aliases,
                                   Hosts = hosts2\<rparr>)))
          else Inr (Some mcConfigV5))"

text \<open>
  The loop of \<open>fixConfigV6ForHosts\<close>. The \<open>url\<close> value is allocated once before the loop and
  reused, so it is threaded through. The alias map is assigned, never written into, so a
  \<open>nil\<close> alias map does not panic here.
\<close>

definition qualify ::
  "string \<Rightarrow> string \<Rightarrow> string \<Rightarrow> hostConfig \<Rightarrow> URL \<times> (string \<rightharpoonup> hostConfig) \<Rightarrow>
   URL \<times> (string \<rightharpoonup> hostConfig)" where
  "qualify goos scheme host hostCfg st =
     (case st of (url, newHosts) \<Rightarrow>
        (let url' = url\<lparr>Host := host, Scheme := scheme, SchemeSeparator := ''://''\<rparr>
         in (url', (newHosts(String goos url' \<mapsto> hostCfg))(host := None))))"

text \<open>One turn of the loop body, for a host and its entry.\<close>

definition fixHostStep ::
  "string \<Rightarrow> string \<Rightarrow> hostConfig \<Rightarrow> URL \<times> (string \<rightharpoonup> hostConfig) \<Rightarrow>
   URL \<times> (string \<rightharpoonup> hostConfig)" where
  "fixHostStep goos host hostCfg st =
     (if HasPrefix host ''https'' \<or> HasPrefix host ''http''
      then (fst st, (snd st)(host \<mapsto> hostCfg))
      else (let st1 = (if host = ''s3.amazonaws.com'' \<or> host = ''storage.googleapis.com''
                       then qualify goos ''https'' host hostCfg st else st);
                st2 = (if host = ''localhost:9000'' \<or> host = ''127.0.0.1:9000''
                       then qualify goos ''http'' host hostCfg st1 else st1);
                st3 = (if host = ''play.minio.io:9000'' \<or> host = ''dl.minio.io:9000''
                       then qualify goos ''https'' host hostCfg st2 else st2)
            in st3))"

fun fixHostsLoop ::
  "string \<Rightarrow> (string \<rightharpoonup> hostConfig) \<Rightarrow> string list \<Rightarrow> URL \<times> (string \<rightharpoonup> hostConfig) \<Rightarrow>
   (string \<rightharpoonup> hostConfig)" where
  "fixHostsLoop goos hosts [] st = snd st"
| "fixHostsLoop goos hosts (host # rest) st =
     fixHostsLoop goos hosts rest
       (case hosts host of None \<Rightarrow> st | Some hostCfg \<Rightarrow> fixHostStep goos host hostCfg st)"

definition fixConfigV6ForHosts :: "string \<Rightarrow> string list \<Rightarrow> configV6 option \<Rightarrow> configV6 option" where
  "fixConfigV6ForHosts goos order file =
     (case file of
        None \<Rightarrow> None
      | Some config \<Rightarrow>
          if Version config = ''6''
          then Some \<lparr>Version = ''6'', Aliases = Aliases config,
                     Hosts = fixHostsLoop goos (Hosts config) order (zeroURL, Map.empty)\<rparr>
          else Some config)"

section \<open>Concrete inputs for the witnesses and counterexamples\<close>

definition objectURL :: "string \<Rightarrow> URL" where
  "objectURL path = \<lparr>Type = Object, Scheme = ''https'', Host = ''play.minio.io:9000'',
                     Path = path, SchemeSeparator = ''://'', Separator = CHR ''/''\<rparr>"

text \<open>An SDK that reports the object as missing and answers the listing with \<open>listing\<close>.\<close>

definition missingObjectAPI :: "ObjectStat list \<Rightarrow> CloudStorageAPI" where
  "missingObjectAPI listing =
     \<lparr>ListBuckets = [],
      StatObject = (\<lambda>bucket object. Inl (ErrorResponse ''NoSuchKey'')),
      ListObjects = (\<lambda>bucket prefix recursive. listing),
      ListIncompleteUploads = (\<lambda>bucket prefix recursive. []),
      BucketExists = (\<lambda>bucket. None)\<rparr>"

text \<open>
  An SDK with two buckets; listing the first one fails, and the channel is closed after the
  error, as the SDK does. \<open>BucketExists\<close> and \<open>StatObject\<close> are denied.
\<close>

definition failingAPI :: CloudStorageAPI where
  "failingAPI =
     \<lparr>ListBuckets =
        [\<lparr>bucket_Name = ''b1'', bucket_CreationDate = 1, bucket_Err = None\<rparr>,
         \<lparr>bucket_Name = ''b2'', bucket_CreationDate = 2, bucket_Err = None\<rparr>],
      StatObject = (\<lambda>bucket object. Inl (ErrorResponse ''AccessDenied'')),
      ListObjects = (\<lambda>bucket prefix recursive.
        if bucket = ''b1''
        then [\<lparr>object_Key = [], object_LastModified = 0, object_Size = 0,
               object_Err = Some (OtherError ''connection reset'')\<rparr>]
        else [\<lparr>object_Key = ''k'', object_LastModified = 3, object_Size = 4, object_Err = None\<rparr>]),
      ListIncompleteUploads = (\<lambda>bucket prefix recursive. []),
      BucketExists = (\<lambda>bucket. Some (ErrorResponse ''AccessDenied''))\<rparr>"

text \<open>An SDK that denies \<open>StatObject\<close> but lists one object below the prefix.\<close>

definition deniedAPI :: CloudStorageAPI where
  "deniedAPI =
     \<lparr>ListBuckets = [],
      StatObject = (\<lambda>bucket object. Inl (ErrorResponse ''AccessDenied'')),
      ListObjects = (\<lambda>bucket prefix recursive.
        [\<lparr>object_Key = ''dir/a'', object_LastModified = 3, object_Size = 4, object_Err = None\<rparr>]),
      ListIncompleteUploads = (\<lambda>bucket prefix recursive. []),
      BucketExists = (\<lambda>bucket. None)\<rparr>"

definition someCredentials :: hostConfig where
  "someCredentials = \<lparr>AccessKeyID = ''AKIAIOSFODNN7'', SecretAccessKey = ''wJalrXUtnFEMI'', API = ''S3v4''\<rparr>"

definition defaults :: globals where
  "defaults = \<lparr>globalAccessKeyID = ''defaultAccessKey'', globalSecretAccessKey = ''defaultSecretKey'',
               globalMCConfigVersion = ''6''\<rparr>"

definition defaultCredentials :: hostConfig where
  "defaultCredentials = \<lparr>AccessKeyID = ''defaultAccessKey'', SecretAccessKey = ''defaultSecretKey'',
                         API = ''S3v4''\<rparr>"

section \<open>Facts about the string primitives\<close>

lemma Index_single:
  "Index s [c] = (if c \<in> set s then Some (length (takeWhile (\<lambda>x. x \<noteq> c) s)) else None)"
  by (induction s) auto

lemma takeWhile_all_notin: "c \<notin> set s \<Longrightarrow> takeWhile (\<lambda>x. x \<noteq> c) s = s"
  by (induction s) auto

lemma dropWhile_all_notin: "c \<notin> set s \<Longrightarrow> dropWhile (\<lambda>x. x \<noteq> c) s = []"
  by (induction s) auto

lemma slice_to: "i \<le> length s \<Longrightarrow> slice s 0 i = Some (take i s)"
  by (simp add: slice_def)

lemma slice_from: "i \<le> length s \<Longrightarrow> slice s i (length s) = Some (drop i s)"
  by (simp add: slice_def)

lemma Index_single_Some:
  assumes "c \<in> set s"
  shows "\<exists>i. Index s [c] = Some i \<and> i < length s \<and> take i s = takeWhile (\<lambda>x. x \<noteq> c) s
           \<and> drop i s = dropWhile (\<lambda>x. x \<noteq> c) s"
proof -
  let ?n = "length (takeWhile (\<lambda>x. x \<noteq> c) s)"
  have "takeWhile (\<lambda>x. x \<noteq> c) s \<noteq> s" using assms by (induction s) auto
  then have "?n \<noteq> length s" by (metis takeWhile_eq_take take_all order_refl)
  then have "?n < length s" using length_takeWhile_le [of "\<lambda>x. x \<noteq> c" s] by simp
  moreover have "take ?n s = takeWhile (\<lambda>x. x \<noteq> c) s" by (rule takeWhile_eq_take [symmetric])
  moreover have "drop ?n s = dropWhile (\<lambda>x. x \<noteq> c) s" by (rule dropWhile_eq_drop [symmetric])
  ultimately show ?thesis using assms by (simp add: Index_single)
qed

lemma splitSpecial_cut:
  "splitSpecial s [c] True = Some (takeWhile (\<lambda>x. x \<noteq> c) s, drop 1 (dropWhile (\<lambda>x. x \<noteq> c) s))"
proof (cases "c \<in> set s")
  case False
  then show ?thesis
    by (simp add: splitSpecial_def Index_single takeWhile_all_notin dropWhile_all_notin)
next
  case True
  from Index_single_Some [OF True] obtain i where i: "Index s [c] = Some i" "i < length s"
    "take i s = takeWhile (\<lambda>x. x \<noteq> c) s" "drop i s = dropWhile (\<lambda>x. x \<noteq> c) s" by blast
  have "drop (Suc i) s = drop 1 (drop i s)" by simp
  then show ?thesis using i
    by (simp add: splitSpecial_def slice_to slice_from del: drop_drop)
qed

lemma splitSpecial_keep:
  "splitSpecial s [c] False = Some (takeWhile (\<lambda>x. x \<noteq> c) s, dropWhile (\<lambda>x. x \<noteq> c) s)"
proof (cases "c \<in> set s")
  case False
  then show ?thesis
    by (simp add: splitSpecial_def Index_single takeWhile_all_notin dropWhile_all_notin)
next
  case True
  from Index_single_Some [OF True] obtain i where i: "Index s [c] = Some i" "i < length s"
    "take i s = takeWhile (\<lambda>x. x \<noteq> c) s" "drop i s = dropWhile (\<lambda>x. x \<noteq> c) s" by blast
  then show ?thesis
    by (simp add: splitSpecial_def slice_to slice_from)
qed

lemma getHost_eq: "getHost a = (if CHR ''@'' \<in> set a then [] else a)"
  by (simp add: getHost_def LastIndex_def Index_single)

lemma Index_Some_bound: "Index s sep = Some i \<Longrightarrow> i + length sep \<le> length s"
proof (induction s arbitrary: i)
  case Nil
  then show ?case by (simp split: if_splits)
next
  case (Cons c cs)
  show ?case
  proof (cases "prefix sep (c # cs)")
    case True
    then have "i = 0" using Cons.prems by simp
    then show ?thesis using prefix_length_le [OF True] by simp
  next
    case False
    then obtain j where j: "Index cs sep = Some j" "i = Suc j" using Cons.prems by auto
    then show ?thesis using Cons.IH [OF j(1)] by simp
  qed
qed

lemma Index_Some_decomp:
  "Index s sep = Some i \<Longrightarrow> s = take i s @ sep @ drop (i + length sep) s"
proof (induction s arbitrary: i)
  case Nil
  then show ?case by (simp split: if_splits)
next
  case (Cons c cs)
  show ?case
  proof (cases "prefix sep (c # cs)")
    case True
    then have "i = 0" using Cons.prems by simp
    then show ?thesis using True by (auto simp: prefix_def)
  next
    case False
    then obtain j where j: "Index cs sep = Some j" "i = Suc j" using Cons.prems by auto
    then show ?thesis using Cons.IH [OF j(1)] by simp
  qed
qed

lemma Index_None_iff: "Index s sep = None \<longleftrightarrow> \<not> (\<exists>a b. s = a @ sep @ b)"
proof (induction s)
  case Nil
  then show ?case by auto
next
  case (Cons c cs)
  show ?case
  proof (cases "prefix sep (c # cs)")
    case True
    then show ?thesis by (auto simp: prefix_def) (metis append_Nil)
  next
    case False
    have "(\<exists>a b. c # cs = a @ sep @ b) \<longleftrightarrow> (\<exists>a b. cs = a @ sep @ b)"
    proof
      assume "\<exists>a b. c # cs = a @ sep @ b"
      then obtain a b where ab: "c # cs = a @ sep @ b" by blast
      show "\<exists>a b. cs = a @ sep @ b"
      proof (cases a)
        case Nil
        then show ?thesis using ab False by (simp add: prefix_def)
      next
        case (Cons x xs)
        then show ?thesis using ab by auto
      qed
    next
      assume "\<exists>a b. cs = a @ sep @ b"
      then obtain a b where "cs = a @ sep @ b" by blast
      then have "c # cs = (c # a) @ sep @ b" by simp
      then show "\<exists>a b. c # cs = a @ sep @ b" by blast
    qed
    then show ?thesis using False Cons.IH by simp
  qed
qed

lemma Index_after_clean:
  "x \<notin> set a \<Longrightarrow> Index (a @ (x # t) @ r) (x # t) = Some (length a)"
  by (induction a) (auto simp: prefix_def)

lemma SplitN_nonempty: "SplitN s sep (Suc n) \<noteq> []"
  by (cases n) (auto split: option.splits)

lemma SplitN_single:
  "SplitN s sep (Suc (Suc n)) = [b] \<longleftrightarrow> Index s sep = None \<and> b = s"
  by (auto split: option.splits simp: SplitN_nonempty)

lemma Split_two:
  assumes "sep \<noteq> []"
  shows "Split s sep = [a, b] \<longleftrightarrow>
         (\<exists>i. Index s sep = Some i \<and> a = take i s \<and> b = drop (i + length sep) s \<and> Index b sep = None)"
proof (cases "Index s sep")
  case None
  then show ?thesis by (cases "length s") (simp_all add: Split_def)
next
  case (Some i)
  have len: "i + length sep \<le> length s" by (rule Index_Some_bound [OF Some])
  have pos: "Suc 0 \<le> length sep" using assms by (cases sep) auto
  then obtain n where n: "length s = Suc n" using len by (cases "length s") auto
  let ?r = "drop (i + length sep) s"
  have split: "Split s sep = take i s # SplitN ?r sep (Suc n)"
    using Some n by (simp add: Split_def)
  show ?thesis
  proof (cases n)
    case 0
    have "length s \<le> i + length sep" using n len pos 0 by linarith
    then have "?r = []" by simp
    then show ?thesis using split 0 Some assms by auto
  next
    case (Suc m)
    then show ?thesis using split Some by (auto simp: SplitN_single simp del: SplitN.simps)
  qed
qed

lemma isLetter_colon: "isLetter c \<Longrightarrow> c \<noteq> CHR '':''"
  by (auto simp: isLetter_def)

lemma validScheme_no_colon: "validScheme sch \<Longrightarrow> CHR '':'' \<notin> set sch"
  by (auto simp: validScheme_def list_all_iff dest: isLetter_colon)

lemma getScheme_cases:
  assumes "getScheme s = (sch, rest)"
  shows "(sch = [] \<and> rest = s) \<or>
         (validScheme sch \<and> (\<exists>r. s = sch @ ''://'' @ r \<and> rest = ''//'' @ r \<and> Index r ''://'' = None))"
proof (cases "\<exists>a b. Split s ''://'' = [a, b]")
  case False
  then have "getScheme s = ([], s)"
    by (auto simp: getScheme_def split: list.splits)
  then show ?thesis using assms by simp
next
  case True
  then obtain a b where ab: "Split s ''://'' = [a, b]" by blast
  have ne: "''://'' \<noteq> []" by simp
  from ab obtain i where i: "Index s ''://'' = Some i" "a = take i s"
    "b = drop (i + length ''://'') s" "Index b ''://'' = None"
    unfolding Split_two [OF ne] by blast
  have s: "s = a @ ''://'' @ b" using Index_Some_decomp [OF i(1)] i(2,3) by metis
  show ?thesis
  proof (cases "validScheme a")
    case True
    then have "getScheme s = (a, ''//'' @ b)" using ab by (simp add: getScheme_def)
    then show ?thesis using assms True s i(4) by auto
  next
    case False
    then have "getScheme s = ([], s)" using ab by (simp add: getScheme_def)
    then show ?thesis using assms by simp
  qed
qed

lemma getScheme_intro:
  assumes "validScheme sch" and "Index r ''://'' = None"
  shows "getScheme (sch @ ''://'' @ r) = (sch, ''//'' @ r)"
proof -
  have "Index (sch @ (CHR '':'' # ''//'') @ r) (CHR '':'' # ''//'') = Some (length sch)"
    by (rule Index_after_clean [OF validScheme_no_colon [OF assms(1)]])
  then have i: "Index (sch @ ''://'' @ r) ''://'' = Some (length sch)" by simp
  have ne: "''://'' \<noteq> []" by simp
  have "Split (sch @ ''://'' @ r) ''://'' = [sch, r]"
    unfolding Split_two [OF ne] using i assms(2) by simp
  then show ?thesis using assms(1) by (simp add: getScheme_def)
qed

lemma NewURL_eq: "NewURL goos s = Some (parsed goos s)"
proof -
  obtain scheme rest0 where g: "getScheme s = (scheme, rest0)" by (cases "getScheme s")
  let ?rest = "takeWhile (\<lambda>x. x \<noteq> CHR ''?'') rest0"
  have sl: "prefix ''//'' ?rest \<Longrightarrow> slice ?rest 2 (length ?rest) = Some (drop 2 ?rest)"
    using prefix_length_le [of "''//''" ?rest] by (simp add: slice_from)
  show ?thesis
    using g sl
    by (auto simp: NewURL_def parsed_def splitSpecial_cut splitSpecial_keep HasPrefix_def
        getHost_eq Let_def)
qed

section \<open>C1: which inputs are object-storage locations\<close>

lemma takeWhile_twice:
  "takeWhile P (takeWhile Q xs) = takeWhile (\<lambda>x. P x \<and> Q x) xs"
  by (induction xs) auto

lemma validScheme_http: "validScheme ''http''" "validScheme ''https''"
  by (simp_all add: validScheme_def isLetter_def)

lemma parsed_scheme:
  assumes "validScheme sch" and "Index r ''://'' = None"
  shows "parsed goos (sch @ ''://'' @ r) =
     (let q = takeWhile (\<lambda>x. x \<noteq> CHR ''?'') r;
          a = takeWhile (\<lambda>x. x \<noteq> CHR ''/'') q;
          p = dropWhile (\<lambda>x. x \<noteq> CHR ''/'') q;
          p' = (if p = [] then ''/'' else p)
      in if a \<noteq> [] \<and> CHR ''@'' \<notin> set a \<and> (sch = ''http'' \<or> sch = ''https'')
         then \<lparr>Type = Object, Scheme = sch, Host = a, Path = p',
                SchemeSeparator = ''://'', Separator = CHR ''/''\<rparr>
         else filesystemURL goos p')"
  unfolding parsed_def getScheme_intro [OF assms] by (simp add: Let_def)

text \<open>
  What the code does, exactly: \<open>NewURL\<close> returns an \<open>Object\<close> location when, and only
  when, the input is \<open>http\<close> or \<open>https\<close>, followed by \<open>://\<close> and a remainder with no second
  \<open>://\<close> anywhere (the query included), and the authority (the remainder up to its first
  \<open>/\<close> or \<open>?\<close>) is not empty and has no \<open>@\<close>. The condition on a second \<open>://\<close> is the
  defect that the theorem below shows; this lemma only records the behaviour.
\<close>

lemma NewURL_object_iff:
  "\<exists>u. NewURL goos s = Some u \<and>
     (Type u = Object \<longleftrightarrow>
        (\<exists>sch r. s = sch @ ''://'' @ r \<and> (sch = ''http'' \<or> sch = ''https'') \<and>
           \<not> Contains r ''://'' \<and>
           takeWhile (\<lambda>c. c \<noteq> CHR ''/'' \<and> c \<noteq> CHR ''?'') r \<noteq> [] \<and>
           CHR ''@'' \<notin> set (takeWhile (\<lambda>c. c \<noteq> CHR ''/'' \<and> c \<noteq> CHR ''?'') r)))"
proof -
  let ?auth = "\<lambda>r. takeWhile (\<lambda>c. c \<noteq> CHR ''/'' \<and> c \<noteq> CHR ''?'') r"
  let ?R = "\<exists>sch r. s = sch @ ''://'' @ r \<and> (sch = ''http'' \<or> sch = ''https'') \<and>
           \<not> Contains r ''://'' \<and> ?auth r \<noteq> [] \<and> CHR ''@'' \<notin> set (?auth r)"
  have obj: "\<And>sch r. validScheme sch \<Longrightarrow> Index r ''://'' = None \<Longrightarrow>
     Type (parsed goos (sch @ ''://'' @ r)) = Object \<longleftrightarrow>
       (sch = ''http'' \<or> sch = ''https'') \<and> ?auth r \<noteq> [] \<and> CHR ''@'' \<notin> set (?auth r)"
    by (simp only: parsed_scheme) (simp add: takeWhile_twice Let_def filesystemURL_def)
  have "Type (parsed goos s) = Object \<longleftrightarrow> ?R"
  proof
    assume o: "Type (parsed goos s) = Object"
    obtain sch rest0 where g: "getScheme s = (sch, rest0)" by (cases "getScheme s")
    have "sch \<noteq> []" using o g
      by (auto simp: parsed_def Let_def filesystemURL_def split: if_splits)
    then obtain r where r: "validScheme sch" "s = sch @ ''://'' @ r" "Index r ''://'' = None"
      using getScheme_cases [OF g] by blast
    then show ?R using obj [OF r(1) r(3)] o by (auto simp: Contains_def)
  next
    assume ?R
    then obtain sch r where r: "s = sch @ ''://'' @ r" "sch = ''http'' \<or> sch = ''https''"
      "Index r ''://'' = None" "?auth r \<noteq> []" "CHR ''@'' \<notin> set (?auth r)"
      by (auto simp: Contains_def)
    have "validScheme sch" using r(2) validScheme_http by auto
    then show "Type (parsed goos s) = Object" using obj [OF _ r(3)] r by blast
  qed
  then show ?thesis by (simp add: NewURL_eq)
qed

text \<open>
  Claim C1 fails on the code. Both inputs have the form \<open>scheme://host/...\<close> with scheme
  \<open>http\<close> or \<open>https\<close> and a host that is not empty, so the claim makes them \<open>Object\<close>
  locations. \<open>strings.Split\<close> finds three pieces in each (the second \<open>://\<close> stands in the
  path of the first input, and in the query of the second, which \<open>NewURL\<close> would cut off on
  its next line), \<open>getScheme\<close> returns no scheme, against its own comment (an input of the
  form scheme:path returns scheme and path), and both locations are \<open>Filesystem\<close>.
\<close>

theorem NewURL_second_separator_filesystem:
  "spec_object_form ''http://host/a://b'' \<and>
   NewURL ''linux'' ''http://host/a://b'' = Some (filesystemURL ''linux'' ''http://host/a://b'') \<and>
   spec_object_form ''https://s3.amazonaws.com/bucket/key?next=http://x'' \<and>
   NewURL ''linux'' ''https://s3.amazonaws.com/bucket/key?next=http://x'' =
     Some (filesystemURL ''linux'' ''https://s3.amazonaws.com/bucket/key'')"
  by code_simp


section \<open>C7: parsing never fails; the path of a filesystem location\<close>

lemma prefix_slashes_takeWhile:
  "prefix ''//'' (takeWhile (\<lambda>x. x \<noteq> CHR ''?'') s) \<longleftrightarrow> prefix ''//'' s"
proof (cases s)
  case Nil then show ?thesis by simp
next
  case (Cons a t)
  then show ?thesis by (cases t) auto
qed

lemma parsed_noscheme:
  assumes "getScheme s = ([], s)"
  shows "parsed goos s =
     (let rest = takeWhile (\<lambda>x. x \<noteq> CHR ''?'') s in
      if prefix ''//'' s
      then filesystemURL goos
             (let p = dropWhile (\<lambda>x. x \<noteq> CHR ''/'') (drop 2 rest) in if p = [] then ''/'' else p)
      else filesystemURL goos rest)"
  unfolding parsed_def assms by (simp add: Let_def prefix_slashes_takeWhile)

lemma path_after_authority_shorter:
  assumes "2 \<le> length s"
  shows "length (let p = dropWhile (\<lambda>x. x \<noteq> CHR ''/'') (drop 2 (takeWhile (\<lambda>x. x \<noteq> CHR ''?'') s))
                 in if p = [] then ''/'' else p) < length s"
proof -
  let ?q = "drop 2 (takeWhile (\<lambda>x. x \<noteq> CHR ''?'') s)"
  let ?p = "dropWhile (\<lambda>x. x \<noteq> CHR ''/'') ?q"
  have "length ?p \<le> length ?q" by (rule length_dropWhile_le)
  moreover have "length ?q \<le> length s - 2"
    using length_takeWhile_le [of "\<lambda>x. x \<noteq> CHR ''?''" s] by simp
  ultimately have A: "length ?p < length s" using assms by linarith
  show ?thesis
  proof (cases "?p = []")
    case True
    then show ?thesis using assms by (simp only: Let_def if_True) simp
  next
    case False
    then show ?thesis using A by (simp only: Let_def if_False)
  qed
qed

lemma NewURL_filesystem_noscheme:
  assumes g: "getScheme s = ([], s)"
  shows "Type (parsed goos s) = Filesystem \<and> Host (parsed goos s) = [] \<and>
         (Path (parsed goos s) = s \<longleftrightarrow> CHR ''?'' \<notin> set s \<and> \<not> HasPrefix s ''//'')"
proof (cases "prefix ''//'' s")
  case True
  then have "2 \<le> length s" using prefix_length_le [of "''//''" s] by simp
  from path_after_authority_shorter [OF this]
  have ne: "(let p = dropWhile (\<lambda>x. x \<noteq> CHR ''/'') (drop 2 (takeWhile (\<lambda>x. x \<noteq> CHR ''?'') s))
                 in if p = [] then ''/'' else p) \<noteq> s" using less_irrefl by fastforce
  have "parsed goos s = filesystemURL goos
     (let p = dropWhile (\<lambda>x. x \<noteq> CHR ''/'') (drop 2 (takeWhile (\<lambda>x. x \<noteq> CHR ''?'') s))
                 in if p = [] then ''/'' else p)"
    unfolding parsed_noscheme [OF g] using True by (simp only: Let_def if_True)
  then show ?thesis using True ne
    by (simp add: filesystemURL_def HasPrefix_def)
next
  case False
  have "takeWhile (\<lambda>x. x \<noteq> CHR ''?'') s = s \<longleftrightarrow> CHR ''?'' \<notin> set s"
    by (auto simp: takeWhile_eq_all_conv)
  then show ?thesis using False
    unfolding parsed_noscheme [OF g] by (simp add: filesystemURL_def Let_def HasPrefix_def)
qed

lemma NewURL_filesystem_scheme:
  assumes v: "validScheme sch" and r: "Index r ''://'' = None"
  shows "Type (parsed goos (sch @ ''://'' @ r)) = Object \<or>
         (Type (parsed goos (sch @ ''://'' @ r)) = Filesystem \<and>
          Host (parsed goos (sch @ ''://'' @ r)) = [] \<and>
          Path (parsed goos (sch @ ''://'' @ r)) \<noteq> sch @ ''://'' @ r)"
proof -
  let ?q = "takeWhile (\<lambda>x. x \<noteq> CHR ''?'') r"
  let ?p = "dropWhile (\<lambda>x. x \<noteq> CHR ''/'') ?q"
  have "length ?p \<le> length ?q" by (rule length_dropWhile_le)
  moreover have "length ?q \<le> length r" by (rule length_takeWhile_le)
  ultimately have "length ?p < length (sch @ ''://'' @ r)" by simp
  then have "length (if ?p = [] then ''/'' else ?p) < length (sch @ ''://'' @ r)"
    by (cases "?p = []") simp_all
  then have ne: "(if ?p = [] then ''/'' else ?p) \<noteq> sch @ ''://'' @ r"
    using less_irrefl by fastforce
  have P: "parsed goos (sch @ ''://'' @ r) =
     (if takeWhile (\<lambda>x. x \<noteq> CHR ''/'') ?q \<noteq> [] \<and> CHR ''@'' \<notin> set (takeWhile (\<lambda>x. x \<noteq> CHR ''/'') ?q)
          \<and> (sch = ''http'' \<or> sch = ''https'')
      then \<lparr>Type = Object, Scheme = sch, Host = takeWhile (\<lambda>x. x \<noteq> CHR ''/'') ?q,
             Path = (if ?p = [] then ''/'' else ?p),
             SchemeSeparator = ''://'', Separator = CHR ''/''\<rparr>
      else filesystemURL goos (if ?p = [] then ''/'' else ?p))"
    by (simp only: parsed_scheme [OF v r] Let_def)
  let ?c = "takeWhile (\<lambda>x. x \<noteq> CHR ''/'') ?q \<noteq> [] \<and> CHR ''@'' \<notin> set (takeWhile (\<lambda>x. x \<noteq> CHR ''/'') ?q)
          \<and> (sch = ''http'' \<or> sch = ''https'')"
  show ?thesis
  proof (cases ?c)
    case True
    then have "Type (parsed goos (sch @ ''://'' @ r)) = Object"
      unfolding P by simp
    then show ?thesis by blast
  next
    case False
    then have "parsed goos (sch @ ''://'' @ r) = filesystemURL goos (if ?p = [] then ''/'' else ?p)"
      by (simp only: P if_False)
    then show ?thesis using ne by (simp only: filesystemURL_def URL.simps) simp
  qed
qed

text \<open>
  Claim C7, as amended. \<open>NewURL\<close> never fails: no slice expression of \<open>splitSpecial\<close> or
  \<open>NewURL\<close> is out of range. A location that is not \<open>Object\<close> is \<open>Filesystem\<close> with an
  empty host, and its path is the raw input exactly when the input has no \<open>?\<close>, does not
  begin with \<open>//\<close> and \<open>getScheme\<close> recognises no scheme in it. (Otherwise the query and
  the authority have been cut off.)
\<close>

theorem NewURL_total_filesystem_path:
  "\<exists>u. NewURL goos s = Some u \<and>
     (Type u = Object \<or>
      (Type u = Filesystem \<and> Host u = [] \<and>
       (Path u = s \<longleftrightarrow>
          CHR ''?'' \<notin> set s \<and> \<not> HasPrefix s ''//'' \<and> fst (getScheme s) = [])))"
proof -
  obtain sch rest0 where g: "getScheme s = (sch, rest0)" by (cases "getScheme s")
  from getScheme_cases [OF g]
  have main: "Type (parsed goos s) = Object \<or>
      (Type (parsed goos s) = Filesystem \<and> Host (parsed goos s) = [] \<and>
       (Path (parsed goos s) = s \<longleftrightarrow>
          CHR ''?'' \<notin> set s \<and> \<not> HasPrefix s ''//'' \<and> fst (getScheme s) = []))"
  proof
    assume "sch = [] \<and> rest0 = s"
    then have g': "getScheme s = ([], s)" using g by simp
    have "fst (getScheme s) = []" by (simp only: g' fst_conv)
    with NewURL_filesystem_noscheme [OF g', of goos] show ?thesis by blast
  next
    assume "validScheme sch \<and> (\<exists>r. s = sch @ ''://'' @ r \<and> rest0 = ''//'' @ r \<and> Index r ''://'' = None)"
    then obtain r where r: "validScheme sch" "s = sch @ ''://'' @ r" "Index r ''://'' = None"
      by blast
    have "sch \<noteq> []" using r(1) by (simp add: validScheme_def)
    then have nf: "fst (getScheme s) \<noteq> []" by (simp only: g fst_conv) simp
    have "Type (parsed goos s) = Object \<or>
         (Type (parsed goos s) = Filesystem \<and> Host (parsed goos s) = [] \<and>
          Path (parsed goos s) \<noteq> s)"
      using NewURL_filesystem_scheme [OF r(1) r(3), of goos] by (simp only: r(2))
    with nf show ?thesis by blast
  qed
  show ?thesis
  proof (intro exI conjI)
    show "NewURL goos s = Some (parsed goos s)" by (rule NewURL_eq)
    show "Type (parsed goos s) = Object \<or>
      (Type (parsed goos s) = Filesystem \<and> Host (parsed goos s) = [] \<and>
       (Path (parsed goos s) = s \<longleftrightarrow>
          CHR ''?'' \<notin> set s \<and> \<not> HasPrefix s ''//'' \<and> fst (getScheme s) = []))"
      by (rule main)
  qed
qed

text \<open>
  Claim C7 as stated fails: for \<open>ftp://host/path\<close> the scheme is recognised, the authority
  is dropped, and the \<open>Filesystem\<close> location holds \<open>/path\<close>, not the raw input.
\<close>

theorem NewURL_path_not_raw_counterexample:
  "NewURL ''linux'' ''ftp://host/path'' = Some (filesystemURL ''linux'' ''/path'') \<and>
   Path (filesystemURL ''linux'' ''/path'') \<noteq> ''ftp://host/path''"
  by code_simp


section \<open>C2: parsing the canonical string\<close>

lemma Index_None_prefix:
  assumes "Index r sep = None" and "prefix q r"
  shows "Index q sep = None"
proof -
  obtain z where z: "r = q @ z" using assms(2) by (auto simp: prefix_def)
  show ?thesis
    unfolding Index_None_iff
  proof
    assume "\<exists>a b. q = a @ sep @ b"
    then obtain a b where "q = a @ sep @ b" by blast
    then have "r = a @ sep @ (b @ z)" using z by simp
    then show False using assms(1) unfolding Index_None_iff by blast
  qed
qed

lemma Index_trailing_slash:
  assumes "CHR ''/'' \<notin> set q"
  shows "Index (q @ ''/'') ''://'' = None"
  unfolding Index_None_iff
proof
  assume "\<exists>a b. q @ ''/'' = a @ ''://'' @ b"
  then obtain a b where ab: "q @ ''/'' = a @ ''://'' @ b" by blast
  show False
  proof (cases b rule: rev_cases)
    case Nil
    then have "q @ ''/'' = (a @ '':/'') @ ''/''" using ab by simp
    then have "q = a @ '':/''" by (simp only: append_same_eq)
    then show False using assms by simp
  next
    case (snoc ys c)
    then have "q @ ''/'' = (a @ ''://'' @ ys) @ [c]" using ab by simp
    then have "q = a @ ''://'' @ ys" by (simp only: append1_eq_conv)
    then show False using assms by simp
  qed
qed

lemma ReplaceChar_id: "old \<notin> set s \<Longrightarrow> ReplaceChar s old new = s"
  by (induction s) (auto simp: ReplaceChar_def)

lemma String_object:
  assumes "Type u = Object" and "Path u \<noteq> []" and "hd (Path u) = CHR ''/''"
    and "goos = ''windows'' \<longrightarrow> backslash \<notin> set (Path u)"
  shows "String goos u = Scheme u @ ''://'' @ Host u @ Path u"
proof -
  have "backslash \<notin> set (Path u) \<Longrightarrow> ReplaceChar (Path u) backslash CHR ''/'' = Path u"
    by (rule ReplaceChar_id)
  then show ?thesis using assms by (simp add: String_def)
qed

lemma parsed_filesystem_shape:
  assumes "Type (parsed goos s) = Filesystem"
  shows "parsed goos s = filesystemURL goos (Path (parsed goos s)) \<and>
         CHR ''?'' \<notin> set (Path (parsed goos s))"
proof -
  obtain sch rest0 where g: "getScheme s = (sch, rest0)" by (cases "getScheme s")
  let ?rest = "takeWhile (\<lambda>x. x \<noteq> CHR ''?'') rest0"
  let ?p = "dropWhile (\<lambda>x. x \<noteq> CHR ''/'') (drop 2 ?rest)"
  have q: "CHR ''?'' \<notin> set ?rest" using set_takeWhileD by fastforce
  have "set ?p \<subseteq> set ?rest"
    using set_dropWhileD in_set_dropD by fast
  then have p: "CHR ''?'' \<notin> set (if ?p = [] then ''/'' else ?p)" using q by auto
  show ?thesis using assms p q
    unfolding parsed_def g by (simp add: Let_def filesystemURL_def split: if_splits)
qed


lemma takeWhile_app_stop:
  "c \<notin> set a \<Longrightarrow> p \<noteq> [] \<and> hd p = c \<Longrightarrow> takeWhile (\<lambda>x. x \<noteq> c) (a @ p) = a"
  by (induction a) (cases p, auto)+

lemma dropWhile_app_stop:
  "c \<notin> set a \<Longrightarrow> p \<noteq> [] \<and> hd p = c \<Longrightarrow> dropWhile (\<lambda>x. x \<noteq> c) (a @ p) = p"
  by (induction a) (cases p, auto)+

lemma roundtrip_object:
  assumes o: "Type (parsed goos s) = Object"
    and w: "goos = ''windows'' \<longrightarrow> backslash \<notin> set (Path (parsed goos s))"
  shows "parsed goos (String goos (parsed goos s)) = parsed goos s"
proof -
  obtain sch rest0 where g: "getScheme s = (sch, rest0)" by (cases "getScheme s")
  have "sch \<noteq> []" using o g
    by (auto simp: parsed_def Let_def filesystemURL_def split: if_splits)
  then obtain r where r: "validScheme sch" "s = sch @ ''://'' @ r" "Index r ''://'' = None"
    using getScheme_cases [OF g] by blast
  let ?q = "takeWhile (\<lambda>x. x \<noteq> CHR ''?'') r"
  let ?a = "takeWhile (\<lambda>x. x \<noteq> CHR ''/'') ?q"
  let ?p = "dropWhile (\<lambda>x. x \<noteq> CHR ''/'') ?q"
  let ?p' = "if ?p = [] then ''/'' else ?p"
  let ?c = "?a \<noteq> [] \<and> CHR ''@'' \<notin> set ?a \<and> (sch = ''http'' \<or> sch = ''https'')"
  let ?u = "\<lparr>Type = Object, Scheme = sch, Host = ?a, Path = ?p',
             SchemeSeparator = ''://'', Separator = CHR ''/''\<rparr>"
  have P: "parsed goos (sch @ ''://'' @ r) = (if ?c then ?u else filesystemURL goos ?p')"
    by (simp only: parsed_scheme [OF r(1) r(3)] Let_def)
  have c: ?c
  proof (rule ccontr)
    assume "\<not> ?c"
    then have "parsed goos (sch @ ''://'' @ r) = filesystemURL goos ?p'"
      by (simp only: P if_False)
    then show False using o unfolding r(2) by (simp add: filesystemURL_def)
  qed
  then have u: "parsed goos s = ?u" unfolding r(2) P by simp
  have hdp: "?p' \<noteq> [] \<and> hd ?p' = CHR ''/''"
    using hd_dropWhile [of "\<lambda>x. x \<noteq> CHR ''/''" ?q] by auto
  have str: "String goos ?u = sch @ ''://'' @ (?a @ ?p')"
    using String_object [of ?u goos] hdp w unfolding u by simp
  have noq: "CHR ''?'' \<notin> set ?q" using set_takeWhileD by fastforce
  have noslash: "CHR ''/'' \<notin> set ?a" using set_takeWhileD by fastforce
  have ap: "?a @ ?p' = (if ?p = [] then ?q @ ''/'' else ?q)"
  proof (cases "?p = []")
    case True
    have "?a @ ?p = ?q" by (rule takeWhile_dropWhile_id)
    then have "?a = ?q" by (simp only: True append_Nil2)
    then show ?thesis by (simp only: True if_True) simp
  next
    case False
    have "?a @ ?p = ?q" by (rule takeWhile_dropWhile_id)
    then show ?thesis using False by (simp only: if_False)
  qed
  have idx: "Index (?a @ ?p') ''://'' = None"
  proof (cases "?p = []")
    case True
    then have ns: "CHR ''/'' \<notin> set ?q" by (auto simp: dropWhile_eq_Nil_conv)
    have "?a @ ?p' = ?q @ ''/''" unfolding ap using True by simp
    then show ?thesis using Index_trailing_slash [OF ns] by (simp only:)
  next
    case False
    have "Index ?q ''://'' = None"
      by (rule Index_None_prefix [OF r(3)]) (rule takeWhile_is_prefix)
    then show ?thesis unfolding ap using False by (simp only: if_False)
  qed
  have noq': "CHR ''?'' \<notin> set (?a @ ?p')" unfolding ap using noq by simp
  have t1: "takeWhile (\<lambda>x. x \<noteq> CHR ''?'') (?a @ ?p') = ?a @ ?p'"
    using noq' by (rule takeWhile_all_notin)
  have t2: "takeWhile (\<lambda>x. x \<noteq> CHR ''/'') (?a @ ?p') = ?a"
    by (rule takeWhile_app_stop [OF noslash hdp])
  have t3: "dropWhile (\<lambda>x. x \<noteq> CHR ''/'') (?a @ ?p') = ?p'"
    by (rule dropWhile_app_stop [OF noslash hdp])
  have "parsed goos (sch @ ''://'' @ (?a @ ?p')) = ?u"
    unfolding parsed_scheme [OF r(1) idx] Let_def t1 t2 t3 using c hdp by simp
  then show ?thesis unfolding u str .
qed


lemma roundtrip_filesystem:
  assumes f: "Type (parsed goos s) = Filesystem"
    and np: "\<not> HasPrefix (Path (parsed goos s)) ''//''"
    and ns: "fst (getScheme (Path (parsed goos s))) = []"
  shows "parsed goos (String goos (parsed goos s)) = parsed goos s"
proof -
  let ?P = "Path (parsed goos s)"
  from parsed_filesystem_shape [OF f]
  have shape: "parsed goos s = filesystemURL goos ?P" and noq: "CHR ''?'' \<notin> set ?P"
    by blast+
  have str: "String goos (parsed goos s) = ?P" using f by (simp add: String_def)
  obtain sch rest0 where g: "getScheme ?P = (sch, rest0)" by (cases "getScheme ?P")
  have "sch = []" using ns g by simp
  moreover have "\<not> validScheme []" by (simp add: validScheme_def)
  ultimately have g': "getScheme ?P = ([], ?P)" using getScheme_cases [OF g] g by auto
  have tw: "takeWhile (\<lambda>x. x \<noteq> CHR ''?'') ?P = ?P" by (rule takeWhile_all_notin [OF noq])
  have np': "\<not> prefix ''//'' ?P" using np unfolding HasPrefix_def .
  have "parsed goos ?P = filesystemURL goos ?P"
    unfolding parsed_noscheme [OF g'] Let_def tw using np' by (simp only: if_False)
  then show ?thesis unfolding str using shape by simp
qed

text \<open>
  Claim C2, as amended. Parsing the canonical string of a parsed location gives the same
  location again when the location is \<open>Object\<close> (on Windows: with no backslash in its
  path, since \<open>String\<close> rewrites backslashes), and when it is \<open>Filesystem\<close> with a path
  that neither begins with \<open>//\<close> nor has a scheme that \<open>getScheme\<close> recognises.
\<close>

theorem String_roundtrip:
  assumes "NewURL goos s = Some u"
    and "(Type u = Object \<and> (goos = ''windows'' \<longrightarrow> backslash \<notin> set (Path u))) \<or>
         (Type u = Filesystem \<and> \<not> HasPrefix (Path u) ''//'' \<and> fst (getScheme (Path u)) = [])"
  shows "NewURL goos (String goos u) = Some u"
proof -
  have u: "u = parsed goos s" using assms(1) by (simp add: NewURL_eq)
  have "parsed goos (String goos (parsed goos s)) = parsed goos s"
    using assms(2) roundtrip_object [of goos s] roundtrip_filesystem [of goos s]
    unfolding u by blast
  then show ?thesis unfolding u by (simp only: NewURL_eq)
qed

text \<open>The theorem at an \<open>https\<close> location with a port and a query.\<close>

theorem String_roundtrip_witness:
  "NewURL ''linux'' ''https://play.minio.io:9000/bucket/a?x=1'' =
     Some \<lparr>Type = Object, Scheme = ''https'', Host = ''play.minio.io:9000'', Path = ''/bucket/a'',
           SchemeSeparator = ''://'', Separator = CHR ''/''\<rparr> \<and>
   NewURL ''linux'' (String ''linux''
       \<lparr>Type = Object, Scheme = ''https'', Host = ''play.minio.io:9000'', Path = ''/bucket/a'',
        SchemeSeparator = ''://'', Separator = CHR ''/''\<rparr>) =
     Some \<lparr>Type = Object, Scheme = ''https'', Host = ''play.minio.io:9000'', Path = ''/bucket/a'',
           SchemeSeparator = ''://'', Separator = CHR ''/''\<rparr>"
proof -
  let ?u = "\<lparr>Type = Object, Scheme = ''https'', Host = ''play.minio.io:9000'', Path = ''/bucket/a'',
           SchemeSeparator = ''://'', Separator = CHR ''/''\<rparr>"
  have a: "NewURL ''linux'' ''https://play.minio.io:9000/bucket/a?x=1'' = Some ?u" by code_simp
  have b: "(Type ?u = Object \<and> (''linux'' = ''windows'' \<longrightarrow> backslash \<notin> set (Path ?u))) \<or>
         (Type ?u = Filesystem \<and> \<not> HasPrefix (Path ?u) ''//'' \<and> fst (getScheme (Path ?u)) = [])"
    by simp
  from String_roundtrip [OF a b] a show ?thesis by (simp only: simp_thms)
qed

text \<open>
  Claim C2 as stated fails: \<open>////a\<close> parses to the \<open>Filesystem\<close> path \<open>//a\<close>, whose
  canonical string \<open>//a\<close> parses to the \<open>Filesystem\<close> path \<open>/\<close> (now \<open>a\<close> is read as an
  authority and dropped).
\<close>

theorem String_roundtrip_counterexample:
  "NewURL ''linux'' ''////a'' = Some (filesystemURL ''linux'' ''//a'') \<and>
   NewURL ''linux'' (String ''linux'' (filesystemURL ''linux'' ''//a'')) =
     Some (filesystemURL ''linux'' ''/'') \<and>
   filesystemURL ''linux'' ''/'' \<noteq> filesystemURL ''linux'' ''//a''"
  by code_simp


section \<open>C3: the separator at the boundary of a join\<close>

lemma join_core:
  "(if HasSuffix a ''/'' then a @ TrimPrefix b ''/'' else a @ ''/'' @ TrimPrefix b ''/'') =
   TrimSuffix a ''/'' @ ''/'' @ TrimPrefix b ''/''"
proof (cases "HasSuffix a ''/''")
  case True
  then obtain a' where "a = a' @ ''/''" by (auto simp: HasSuffix_def suffix_def)
  then show ?thesis using True by (simp add: TrimSuffix_def)
next
  case False
  then show ?thesis by (simp add: TrimSuffix_def)
qed

lemma TrimSuffix_no_slash:
  assumes "\<not> HasSuffix a ''//''"
  shows "\<not> HasSuffix (TrimSuffix a ''/'') ''/''"
proof (cases "HasSuffix a ''/''")
  case True
  then obtain a' where a: "a = a' @ ''/''" by (auto simp: HasSuffix_def suffix_def)
  have "\<not> suffix ''/'' a'"
  proof
    assume "suffix ''/'' a'"
    then obtain z where "a' = z @ ''/''" by (auto simp: suffix_def)
    then have "a = z @ ''//''" using a by simp
    then show False using assms by (simp add: HasSuffix_def suffix_def)
  qed
  then show ?thesis using a by (simp add: TrimSuffix_def HasSuffix_def)
next
  case False
  then show ?thesis by (simp add: TrimSuffix_def)
qed

lemma TrimPrefix_no_slash:
  assumes "\<not> HasPrefix b ''//''"
  shows "\<not> HasPrefix (TrimPrefix b ''/'') ''/''"
proof (cases "HasPrefix b ''/''")
  case True
  then obtain b' where b: "b = ''/'' @ b'" by (auto simp: HasPrefix_def prefix_def)
  have "\<not> prefix ''/'' b'"
  proof
    assume "prefix ''/'' b'"
    then obtain z where "b' = ''/'' @ z" by (auto simp: prefix_def)
    then have "b = ''//'' @ z" using b by simp
    then show False using assms by (simp add: HasPrefix_def)
  qed
  then show ?thesis using b by (simp add: TrimPrefix_def HasPrefix_def)
next
  case False
  then show ?thesis by (simp add: TrimPrefix_def)
qed

lemma ReplaceChar_removes: "old \<noteq> new \<Longrightarrow> old \<notin> set (ReplaceChar s old new)"
  by (induction s) (auto simp: ReplaceChar_def)

lemma ReplaceChar_back:
  "b \<notin> set s \<Longrightarrow> ReplaceChar (ReplaceChar s a b) b a = s"
  by (induction s) (auto simp: ReplaceChar_def)

lemma backslash_not_slash: "backslash \<noteq> CHR ''/''"
  by (simp add: backslash_def)

lemma TrimSuffix_subset: "set (TrimSuffix a p) \<subseteq> set a"
  by (auto simp: TrimSuffix_def dest: in_set_takeD)

lemma TrimPrefix_subset: "set (TrimPrefix a p) \<subseteq> set a"
  by (auto simp: TrimPrefix_def dest: in_set_dropD)

lemma JoinURLs_path:
  "slashed goos (Path (JoinURLs goos url1 url2)) =
     TrimSuffix (slashed goos (Path url1)) ''/'' @ ''/'' @ TrimPrefix (slashed goos (Path url2)) ''/''"
proof (cases "goos = ''windows''")
  case False
  then show ?thesis
    by (cases "Type url1") (simp_all add: JoinURLs_def slashed_def join_core Let_def)
next
  case True
  let ?a = "ReplaceChar (Path url1) backslash CHR ''/''"
  let ?b = "ReplaceChar (Path url2) backslash CHR ''/''"
  let ?j = "TrimSuffix ?a ''/'' @ ''/'' @ TrimPrefix ?b ''/''"
  have nb: "backslash \<notin> set ?j"
    using ReplaceChar_removes [OF backslash_not_slash, of "Path url1"]
      ReplaceChar_removes [OF backslash_not_slash, of "Path url2"]
      TrimSuffix_subset [of ?a "''/''"] TrimPrefix_subset [of ?b "''/''"] backslash_not_slash
    by auto
  have P: "Path (JoinURLs goos url1 url2) =
       (case Type url1 of Object \<Rightarrow> ?j | Filesystem \<Rightarrow> ReplaceChar ?j CHR ''/'' backslash)"
    using True by (cases "Type url1") (simp_all add: JoinURLs_def join_core Let_def)
  show ?thesis
  proof (cases "Type url1")
    case Object
    then show ?thesis using True P nb by (simp add: slashed_def ReplaceChar_id)
  next
    case Filesystem
    then show ?thesis using True P ReplaceChar_back [OF nb, of "CHR ''/''"]
      by (simp add: slashed_def)
  qed
qed

text \<open>
  Claim C3, as amended. With the paths read with slashes, the joined path is the parent path
  without one trailing separator, one separator, and the child path without one leading
  separator. So exactly one separator stands at the boundary whenever the parent path does not
  end with two separators and the child path does not begin with two.
\<close>

theorem JoinURLs_one_separator:
  assumes "\<not> HasSuffix (slashed goos (Path url1)) ''//''"
    and "\<not> HasPrefix (slashed goos (Path url2)) ''//''"
  shows "\<exists>p c. slashed goos (Path (JoinURLs goos url1 url2)) = p @ ''/'' @ c \<and>
           p = TrimSuffix (slashed goos (Path url1)) ''/'' \<and>
           c = TrimPrefix (slashed goos (Path url2)) ''/'' \<and>
           \<not> HasSuffix p ''/'' \<and> \<not> HasPrefix c ''/''"
  using JoinURLs_path [of goos url1 url2] TrimSuffix_no_slash [OF assms(1)]
    TrimPrefix_no_slash [OF assms(2)] by blast


text \<open>The theorem at a parent path that ends with a separator and a child that begins with one.\<close>

theorem JoinURLs_one_separator_witness:
  "\<not> HasSuffix (slashed ''linux'' ''/bucket/'') ''//'' \<and>
   \<not> HasPrefix (slashed ''linux'' ''/key'') ''//'' \<and>
   (\<exists>p c. slashed ''linux'' (Path (JoinURLs ''linux''
        \<lparr>Type = Object, Scheme = ''https'', Host = ''host'', Path = ''/bucket/'',
         SchemeSeparator = ''://'', Separator = CHR ''/''\<rparr> (filesystemURL ''linux'' ''/key''))) = p @ ''/'' @ c \<and>
      p = ''/bucket'' \<and> c = ''key'' \<and> \<not> HasSuffix p ''/'' \<and> \<not> HasPrefix c ''/'')"
proof -
  let ?u1 = "\<lparr>Type = Object, Scheme = ''https'', Host = ''host'', Path = ''/bucket/'',
         SchemeSeparator = ''://'', Separator = CHR ''/''\<rparr>"
  let ?u2 = "filesystemURL ''linux'' ''/key''"
  have h1: "\<not> HasSuffix (slashed ''linux'' (Path ?u1)) ''//''"
    by (simp add: slashed_def HasSuffix_def suffix_def)
  have h2: "\<not> HasPrefix (slashed ''linux'' (Path ?u2)) ''//''"
    by (simp add: slashed_def HasPrefix_def filesystemURL_def)
  have p: "TrimSuffix (slashed ''linux'' (Path ?u1)) ''/'' = ''/bucket''"
    by (simp add: slashed_def TrimSuffix_def HasSuffix_def suffix_def)
  have c: "TrimPrefix (slashed ''linux'' (Path ?u2)) ''/'' = ''key''"
    by (simp add: slashed_def TrimPrefix_def HasPrefix_def filesystemURL_def)
  from JoinURLs_one_separator [OF h1 h2] show ?thesis
    unfolding p c using h1 h2 by (simp add: filesystemURL_def)
qed

text \<open>
  Claim C3 as stated fails: \<open>strings.TrimPrefix\<close> removes one leading separator only, so the
  child path \<open>//key\<close> joined to \<open>/bucket\<close> leaves two separators at the boundary.
\<close>

theorem JoinURLs_double_separator_counterexample:
  "Path (JoinURLs ''linux''
        \<lparr>Type = Object, Scheme = ''https'', Host = ''host'', Path = ''/bucket'',
         SchemeSeparator = ''://'', Separator = CHR ''/''\<rparr> (filesystemURL ''linux'' ''//key''))
     = ''/bucket//key''"
  by (simp add: JoinURLs_def filesystemURL_def HasSuffix_def TrimPrefix_def HasPrefix_def suffix_def)

section \<open>C4: the bucket of a virtual-host-style location\<close>

lemma parsed_object_any_goos:
  assumes "Type (parsed g1 s) = Object"
  shows "parsed g2 s = parsed g1 s"
proof -
  obtain sch rest0 where g: "getScheme s = (sch, rest0)" by (cases "getScheme s")
  show ?thesis using assms unfolding parsed_def g
    by (auto simp: Let_def filesystemURL_def split: if_splits)
qed

lemma virtual_host_url:
  "NewURL goos ''https://mybucket.s3.amazonaws.com/key'' =
     Some \<lparr>Type = Object, Scheme = ''https'', Host = ''mybucket.s3.amazonaws.com'', Path = ''/key'',
           SchemeSeparator = ''://'', Separator = CHR ''/''\<rparr>"
proof -
  have "NewURL ''linux'' ''https://mybucket.s3.amazonaws.com/key'' =
     Some \<lparr>Type = Object, Scheme = ''https'', Host = ''mybucket.s3.amazonaws.com'', Path = ''/key'',
           SchemeSeparator = ''://'', Separator = CHR ''/''\<rparr>" by code_simp
  then have p: "parsed ''linux'' ''https://mybucket.s3.amazonaws.com/key'' =
      \<lparr>Type = Object, Scheme = ''https'', Host = ''mybucket.s3.amazonaws.com'', Path = ''/key'',
           SchemeSeparator = ''://'', Separator = CHR ''/''\<rparr>" by (simp only: NewURL_eq option.inject)
  have "Type (parsed ''linux'' ''https://mybucket.s3.amazonaws.com/key'') = Object"
    unfolding p by simp
  from parsed_object_any_goos [OF this, of goos] show ?thesis
    by (simp only: NewURL_eq p)
qed

lemma path_style_url:
  "NewURL goos ''https://s3.amazonaws.com/mybucket/key'' =
     Some \<lparr>Type = Object, Scheme = ''https'', Host = ''s3.amazonaws.com'', Path = ''/mybucket/key'',
           SchemeSeparator = ''://'', Separator = CHR ''/''\<rparr>"
proof -
  have "NewURL ''linux'' ''https://s3.amazonaws.com/mybucket/key'' =
     Some \<lparr>Type = Object, Scheme = ''https'', Host = ''s3.amazonaws.com'', Path = ''/mybucket/key'',
           SchemeSeparator = ''://'', Separator = CHR ''/''\<rparr>" by code_simp
  then have p: "parsed ''linux'' ''https://s3.amazonaws.com/mybucket/key'' =
      \<lparr>Type = Object, Scheme = ''https'', Host = ''s3.amazonaws.com'', Path = ''/mybucket/key'',
           SchemeSeparator = ''://'', Separator = CHR ''/''\<rparr>" by (simp only: NewURL_eq option.inject)
  have "Type (parsed ''linux'' ''https://s3.amazonaws.com/mybucket/key'') = Object"
    unfolding p by simp
  from parsed_object_any_goos [OF this, of goos] show ?thesis
    by (simp only: NewURL_eq p)
qed

lemma virtual_host_detected:
  "isVirtualHostStyle goos ''mybucket.s3.amazonaws.com''"
  "\<not> isVirtualHostStyle goos ''s3.amazonaws.com''"
  by (cases "goos = ''windows''"; simp add: isVirtualHostStyle_def filesystemURL_def filepath_Separator_def backslash_def)+

lemma split_bucket_key: "SplitN ''/mybucket/key'' ''/'' 3 = [[], ''mybucket'', ''key'']"
  by code_simp

text \<open>
  Claim C4. On every platform, the client for \<open>https://mybucket.s3.amazonaws.com/key\<close> is
  virtual-host style and resolves to bucket \<open>mybucket\<close> and object \<open>key\<close>, the same split
  as for the path-style location \<open>https://s3.amazonaws.com/mybucket/key\<close>.
\<close>

theorem virtual_host_bucket_and_object:
  "map_option url2BucketAndObject (New goos a ''https://mybucket.s3.amazonaws.com/key'') =
     Some (''mybucket'', ''key'') \<and>
   map_option url2BucketAndObject (New goos a ''https://s3.amazonaws.com/mybucket/key'') =
     Some (''mybucket'', ''key'')"
  by (simp add: New_def virtual_host_url path_style_url virtual_host_detected
      url2BucketAndObject_def split_bucket_key)


section \<open>C5: Stat of a missing object\<close>

text \<open>
  Claim C5, as amended. When \<open>StatObject\<close> answers \<open>NoSuchKey\<close> for an object location,
  \<open>Stat\<close> lists, non-recursively, the object name with one trailing separator trimmed and a
  separator appended. An empty listing gives \<open>PathNotFound\<close> with the path of the location; a
  first entry without an error gives the location as a directory; a first entry that carries
  an error gives that error.
\<close>

theorem Stat_missing_object:
  assumes "url2BucketAndObject c = (bucket, object)" and "object \<noteq> []"
    and "StatObject (api c) bucket object = Inl (ErrorResponse ''NoSuchKey'')"
  shows "Stat c =
     (case ListObjects (api c) bucket
             (TrimSuffix object [Separator (hostURL c)] @ [Separator (hostURL c)]) False of
        [] \<Rightarrow> Inl (PathNotFound (Path (hostURL c)))
      | objectStat # _ \<Rightarrow>
          (case object_Err objectStat of
             None \<Rightarrow> Inr (dirContent (hostURL c))
           | Some e \<Rightarrow> Inl (ApiError e)))"
  using assms by (simp add: Stat_def ToErrorResponse_def Let_def split: list.splits option.splits)

lemma bucketDir_split:
  "url2BucketAndObject \<lparr>api = a, hostURL = (objectURL ''/bucket/dir''), virtualStyle = False\<rparr> = (''bucket'', ''dir'')"
proof -
  have "SplitN ''/bucket/dir'' ''/'' 3 = [[], ''bucket'', ''dir'']" by code_simp
  then show ?thesis by (simp add: url2BucketAndObject_def objectURL_def)
qed

text \<open>The theorem at \<open>/bucket/dir\<close>, with a listing of one object and with an empty listing.\<close>

theorem Stat_missing_object_witness:
  "Stat \<lparr>api = missingObjectAPI
            [\<lparr>object_Key = ''dir/a'', object_LastModified = 0, object_Size = 1, object_Err = None\<rparr>],
         hostURL = (objectURL ''/bucket/dir''), virtualStyle = False\<rparr> = Inr (dirContent (objectURL ''/bucket/dir'')) \<and>
   Stat \<lparr>api = missingObjectAPI [], hostURL = (objectURL ''/bucket/dir''), virtualStyle = False\<rparr> =
     Inl (PathNotFound ''/bucket/dir'')"
proof -
  let ?l = "[\<lparr>object_Key = ''dir/a'', object_LastModified = 0, object_Size = 1, object_Err = None\<rparr>]"
  let ?c = "\<lambda>l. \<lparr>api = missingObjectAPI l, hostURL = (objectURL ''/bucket/dir''), virtualStyle = False\<rparr>"
  have ne: "''dir'' \<noteq> []" by simp
  have s: "\<And>l. StatObject (api (?c l)) ''bucket'' ''dir'' = Inl (ErrorResponse ''NoSuchKey'')"
    by (simp add: missingObjectAPI_def)
  show ?thesis
    using Stat_missing_object [OF bucketDir_split ne s, of ?l]
      Stat_missing_object [OF bucketDir_split ne s, of "[]"]
    by (simp add: missingObjectAPI_def objectURL_def)
qed

text \<open>
  Claim C5 as stated fails: the listing yields an entry, and the entry carries an error; \<open>Stat\<close>
  returns neither a directory nor the not-found failure, but the error of the listing.
\<close>

theorem Stat_listing_error_counterexample:
  "Stat \<lparr>api = missingObjectAPI
            [\<lparr>object_Key = [], object_LastModified = 0, object_Size = 0,
              object_Err = Some (OtherError ''connection reset'')\<rparr>],
         hostURL = (objectURL ''/bucket/dir''), virtualStyle = False\<rparr> =
     Inl (ApiError (OtherError ''connection reset''))"
  by (simp add: Stat_def bucketDir_split missingObjectAPI_def ToErrorResponse_def)

section \<open>C6: errors in a listing\<close>

lemma root_split:
  "url2BucketAndObject \<lparr>api = a, hostURL = objectURL ''/'', virtualStyle = False\<rparr> = ([], [])"
proof -
  have "SplitN ''/'' ''/'' 3 = [[], []]" by code_simp
  then show ?thesis by (simp add: url2BucketAndObject_def objectURL_def)
qed

lemma bucket_split:
  "url2BucketAndObject \<lparr>api = a, hostURL = objectURL ''/bucket'', virtualStyle = False\<rparr> = (''bucket'', [])"
proof -
  have "SplitN ''/bucket'' ''/'' 3 = [[], ''bucket'']" by code_simp
  then show ?thesis by (simp add: url2BucketAndObject_def objectURL_def)
qed

text \<open>
  Claim C6 fails on the code. The recursive listing of the storage root goes on after an
  object error (\<open>continue\<close>): the entry of bucket \<open>b2\<close> and its object follow the error. The
  non-recursive listing of a bucket sends the error of \<open>BucketExists\<close> and then the directory
  entry of the bucket all the same.
\<close>

theorem List_error_not_last:
  "map (\<lambda>x. content_Err x \<noteq> None)
     (List join now \<lparr>api = failingAPI, hostURL = objectURL ''/'', virtualStyle = False\<rparr> True False)
     = [False, True, False, False] \<and>
   \<not> errorTerminates
     (List join now \<lparr>api = failingAPI, hostURL = objectURL ''/'', virtualStyle = False\<rparr> True False) \<and>
   map (\<lambda>x. content_Err x \<noteq> None)
     (List join now \<lparr>api = failingAPI, hostURL = objectURL ''/bucket'', virtualStyle = False\<rparr> False False)
     = [True, False] \<and>
   \<not> errorTerminates
     (List join now \<lparr>api = failingAPI, hostURL = objectURL ''/bucket'', virtualStyle = False\<rparr> False False)"
proof -
  let ?root = "\<lparr>api = failingAPI, hostURL = objectURL ''/'', virtualStyle = False\<rparr>"
  let ?bucket = "\<lparr>api = failingAPI, hostURL = objectURL ''/bucket'', virtualStyle = False\<rparr>"
  have r: "map (\<lambda>x. content_Err x \<noteq> None) (listRecursiveInRoutine join ?root)
             = [False, True, False, False]"
    unfolding listRecursiveInRoutine_def root_split
    by (simp add: failingAPI_def emitAndContinue_def errContent_def bucketContent_def
        fileContent_def zeroContent_def)
  have rt: "\<not> errorTerminates (listRecursiveInRoutine join ?root)"
    unfolding listRecursiveInRoutine_def root_split
    by (simp add: failingAPI_def emitAndContinue_def errContent_def bucketContent_def
        fileContent_def zeroContent_def)
  have ns: "\<not> HasSuffix (Path (hostURL ?bucket)) [Separator (hostURL ?bucket)]"
    by (simp add: objectURL_def HasSuffix_def suffix_def)
  have b: "map (\<lambda>x. content_Err x \<noteq> None) (listInRoutine join now ?bucket) = [True, False]"
    unfolding listInRoutine_def bucket_split using ns
    by (simp add: failingAPI_def errContent_def dirContent_def zeroContent_def)
  have bt: "\<not> errorTerminates (listInRoutine join now ?bucket)"
    unfolding listInRoutine_def bucket_split using ns
    by (simp add: failingAPI_def errContent_def dirContent_def zeroContent_def)
  show ?thesis using r rt b bt by (simp only: List_def if_True if_False simp_thms)
qed

text \<open>
  The two listings of incomplete uploads do stop at the first error, for every SDK answer:
  their loops \<open>return\<close> where the recursive object listing has \<open>continue\<close>.
\<close>

lemma emitUntilError_shape:
  assumes "\<And>x. content_Err (mk x) = None"
  shows "case emitUntilError err mk xs of
           (ys, stopped) \<Rightarrow>
             (if stopped
              then \<exists>zs e. ys = zs @ [errContent e] \<and> (\<forall>z\<in>set zs. content_Err z = None)
              else \<forall>z\<in>set ys. content_Err z = None)"
proof (induction xs)
  case Nil
  then show ?case by simp
next
  case (Cons x xs)
  show ?case
  proof (cases "err x")
    case (Some e)
    then show ?thesis by auto
  next
    case None
    obtain ys stopped where r: "emitUntilError err mk xs = (ys, stopped)"
      by (cases "emitUntilError err mk xs")
    show ?thesis
    proof (cases stopped)
      case True
      then obtain zs e where "ys = zs @ [errContent e]" "\<forall>z\<in>set zs. content_Err z = None"
        using Cons.IH r by auto
      then have "mk x # ys = (mk x # zs) @ [errContent e] \<and> (\<forall>z\<in>set (mk x # zs). content_Err z = None)"
        using assms by simp
      then show ?thesis using None r True by (simp only: emitUntilError.simps option.case prod.case if_True) blast
    next
      case False
      then show ?thesis using None r Cons.IH assms by simp
    qed
  qed
qed

lemma errorTerminates_append:
  "\<forall>z\<in>set zs. content_Err z = None \<Longrightarrow> errorTerminates (zs @ ys) = errorTerminates ys"
  by (induction zs) auto

lemma errorTerminates_clean: "\<forall>z\<in>set zs. content_Err z = None \<Longrightarrow> errorTerminates zs"
  using errorTerminates_append [of zs "[]"] by simp

lemma errorTerminates_err: "errorTerminates [errContent e]"
  by (simp add: errContent_def)

lemma emitUntilError_terminates:
  assumes "\<And>x. content_Err (mk x) = None"
  shows "errorTerminates (fst (emitUntilError err mk xs))"
proof -
  obtain ys stopped where r: "emitUntilError err mk xs = (ys, stopped)"
    by (cases "emitUntilError err mk xs")
  show ?thesis using emitUntilError_shape [of mk err xs, OF assms] r
    by (cases stopped) (auto simp: errorTerminates_append errorTerminates_err errorTerminates_clean)
qed

lemma bucketsUntilError_terminates:
  assumes "\<And>x b. content_Err (mk b x) = None"
  shows "errorTerminates (bucketsUntilError (\<lambda>b. emitUntilError err (mk b) (items b)) bs)"
proof (induction bs)
  case Nil
  then show ?case by simp
next
  case (Cons b bs)
  obtain ys stopped where r: "emitUntilError err (mk b) (items b) = (ys, stopped)"
    by (cases "emitUntilError err (mk b) (items b)")
  have sh: "if stopped
              then \<exists>zs e. ys = zs @ [errContent e] \<and> (\<forall>z\<in>set zs. content_Err z = None)
              else \<forall>z\<in>set ys. content_Err z = None"
    using emitUntilError_shape [of "mk b" err "items b"] assms r by simp
  show ?case
  proof (cases "bucket_Err b")
    case (Some e)
    then show ?thesis by (simp add: errorTerminates_err)
  next
    case None
    then show ?thesis using r sh Cons.IH
      by (cases stopped) (auto simp: errorTerminates_append errorTerminates_err)
  qed
qed

lemma incomplete_listings_terminate:
  "errorTerminates (List join now c False True)"
  "errorTerminates (List join now c True True)"
proof -
  obtain b ob where s: "url2BucketAndObject c = (b, ob)" by (cases "url2BucketAndObject c")
  have u: "\<And>bn x. content_Err (uploadContent join now c bn x) = None"
    by (simp add: uploadContent_def zeroContent_def Let_def)
  have t: "\<And>u x. content_Err (temporaryContent u x) = None"
    by (simp add: temporaryContent_def zeroContent_def)
  show "errorTerminates (List join now c False True)"
    using bucketsUntilError_terminates [of "\<lambda>bk. uploadContent join now c (bucket_Name bk)" upload_Err, OF u]
      emitUntilError_terminates [of "uploadContent join now c b" upload_Err, OF u]
    by (simp add: List_def listIncompleteInRoutine_def s)
  show "errorTerminates (List join now c True True)"
    using bucketsUntilError_terminates
        [of "\<lambda>bk object. temporaryContent
                               ((hostURL c)\<lparr>Path := join [Path (hostURL c), bucket_Name bk,
                                                           upload_Key object]\<rparr>) object" upload_Err, OF t]
      emitUntilError_terminates [of "\<lambda>object. temporaryContent
                       ((hostURL c)\<lparr>Path := keyPath join c b (upload_Key object)\<rparr>) object" upload_Err, OF t]
    by (simp add: List_def listIncompleteRecursiveInRoutine_def s)
qed

section \<open>C8: the migration from version 5 to version 6\<close>

text \<open>
  Which entry the second loop stops at: the host \<open>host\<close> stands in the iteration order after
  a run \<open>pre\<close> of keys none of which has an entry with \<open>s3\<close> in its name, it has an entry,
  and its name contains \<open>s3\<close>.
\<close>

lemma firstS3Host_iff:
  "firstS3Host order hosts = Some (host, hostConf) \<longleftrightarrow>
     (\<exists>pre post. order = pre @ host # post \<and> hosts host = Some hostConf \<and> Contains host ''s3'' \<and>
        (\<forall>k\<in>set pre. hosts k \<noteq> None \<longrightarrow> \<not> Contains k ''s3''))"
proof (induction order)
  case Nil
  then show ?case by simp
next
  case (Cons k rest)
  let ?R = "\<lambda>order. \<exists>pre post. order = pre @ host # post \<and> hosts host = Some hostConf \<and>
        Contains host ''s3'' \<and> (\<forall>k\<in>set pre. hosts k \<noteq> None \<longrightarrow> \<not> Contains k ''s3'')"
  show ?case
  proof (cases "hosts k \<noteq> None \<and> Contains k ''s3''")
    case True
    then obtain conf where conf: "hosts k = Some conf" by auto
    have f: "firstS3Host (k # rest) hosts = Some (k, conf)" using True conf by simp
    have "?R (k # rest) \<longleftrightarrow> host = k \<and> hostConf = conf"
    proof
      assume "?R (k # rest)"
      then obtain pre post where p: "k # rest = pre @ host # post" "hosts host = Some hostConf"
        "\<forall>k\<in>set pre. hosts k \<noteq> None \<longrightarrow> \<not> Contains k ''s3''" by blast
      have "pre = []"
      proof (cases pre)
        case Nil then show ?thesis .
      next
        case (Cons x xs)
        then have "x = k" using p(1) by simp
        then show ?thesis using p(3) Cons True by auto
      qed
      then show "host = k \<and> hostConf = conf" using p(1,2) conf by simp
    next
      assume "host = k \<and> hostConf = conf"
      then have "k # rest = [] @ host # rest \<and> hosts host = Some hostConf \<and> Contains host ''s3'' \<and>
          (\<forall>j\<in>set []. hosts j \<noteq> None \<longrightarrow> \<not> Contains j ''s3'')"
        using True conf by simp
      then show "?R (k # rest)" by (intro exI)
    qed
    then show ?thesis using f by auto
  next
    case False
    then have f: "firstS3Host (k # rest) hosts = firstS3Host rest hosts"
      by (auto split: option.splits)
    have "?R (k # rest) \<longleftrightarrow> ?R rest"
    proof
      assume "?R (k # rest)"
      then obtain pre post where p: "k # rest = pre @ host # post" "hosts host = Some hostConf"
        "Contains host ''s3''" "\<forall>k\<in>set pre. hosts k \<noteq> None \<longrightarrow> \<not> Contains k ''s3''" by blast
      show "?R rest"
      proof (cases pre)
        case Nil
        then have "host = k" using p(1) by simp
        then show ?thesis using False p(2,3) by simp
      next
        case (Cons x xs)
        then have "rest = xs @ host # post" using p(1) by simp
        moreover have "\<forall>k\<in>set xs. hosts k \<noteq> None \<longrightarrow> \<not> Contains k ''s3''"
          using p(4) Cons by simp
        ultimately show ?thesis using p(2,3) by blast
      qed
    next
      assume "?R rest"
      then obtain pre post where p: "rest = pre @ host # post" "hosts host = Some hostConf"
        "Contains host ''s3''" "\<forall>k\<in>set pre. hosts k \<noteq> None \<longrightarrow> \<not> Contains k ''s3''" by blast
      have "k # rest = (k # pre) @ host # post" using p(1) by simp
      moreover have "\<forall>j\<in>set (k # pre). hosts j \<noteq> None \<longrightarrow> \<not> Contains j ''s3''"
        using p(4) False by auto
      ultimately show "?R (k # rest)" using p(2,3) by blast
    qed
    then show ?thesis using f Cons.IH by simp
  qed
qed

lemma contains_s3: "Contains ''s3.amazonaws.com'' ''s3''" "\<not> Contains ''play.minio.io:9000'' ''s3''"
  by (simp_all add: Contains_def)

text \<open>
  On a version-5 document whose alias map is \<open>nil\<close> the step panics before it reads a host.
\<close>

lemma migrateConfigV5ToV6_nil_aliases:
  "Version doc = ''5'' \<Longrightarrow> Aliases doc = None \<Longrightarrow>
     migrateConfigV5ToV6 g order (Some doc) = Inl AssignToNilMap"
  by (simp add: migrateConfigV5ToV6_def)

text \<open>
  Claim C8 as stated fails: both host entries hold the default credentials; the one whose name
  contains \<open>s3\<close> is deleted, the other one is carried through.
\<close>

theorem migrateConfigV5ToV6_keeps_default_counterexample:
  "map_sum id (map_option (\<lambda>new. (Hosts new ''s3.amazonaws.com'', Hosts new ''play.minio.io:9000'')))
     (migrateConfigV5ToV6 defaults [''play.minio.io:9000'', ''s3.amazonaws.com'']
        (Some \<lparr>Version = ''5'', Aliases = Some Map.empty,
               Hosts = [''play.minio.io:9000'' \<mapsto> defaultCredentials,
                        ''s3.amazonaws.com'' \<mapsto> defaultCredentials]\<rparr>))
   = Inr (Some (None, Some defaultCredentials))"
  by (simp add: migrateConfigV5ToV6_def contains_s3 defaults_def defaultCredentials_def Let_def)

text \<open>
  Claim C8, as amended. On a version-5 document whose alias map is not \<open>nil\<close>, the step
  returns, and it deletes the entry of a host \<open>h\<close> exactly when \<open>h\<close> is the first host, in
  the order of the iteration, that has an entry and whose name contains \<open>s3\<close> (no key
  visited before it has an entry with \<open>s3\<close> in its name), and the access key of that entry is
  the default access key, or its secret key is the default secret key, or either is empty.
  Every other entry is carried through unchanged (the two pattern entries that the step
  writes itself apart).
\<close>

theorem migrateConfigV5ToV6_hosts:
  assumes "Version doc = ''5''" and "Aliases doc = Some loaded"
    and "h \<noteq> ''*s3*amazonaws.com''" and "h \<noteq> ''*storage.googleapis.com''"
  shows "\<exists>new. migrateConfigV5ToV6 g order (Some doc) = Inr (Some new) \<and>
           Hosts new h =
             (if \<exists>pre post hostConf.
                    order = pre @ h # post \<and> Hosts doc h = Some hostConf \<and> Contains h ''s3'' \<and>
                    (\<forall>k\<in>set pre. Hosts doc k \<noteq> None \<longrightarrow> \<not> Contains k ''s3'') \<and>
                    (AccessKeyID hostConf = globalAccessKeyID g \<or>
                     SecretAccessKey hostConf = globalSecretAccessKey g \<or>
                     AccessKeyID hostConf = [] \<or> SecretAccessKey hostConf = [])
              then None else Hosts doc h)"
proof -
  let ?del = "\<lambda>hostConf. AccessKeyID hostConf = globalAccessKeyID g \<or>
                     SecretAccessKey hostConf = globalSecretAccessKey g \<or>
                     AccessKeyID hostConf = [] \<or> SecretAccessKey hostConf = []"
  let ?first = "\<lambda>hostConf. \<exists>pre post. order = pre @ h # post \<and> Hosts doc h = Some hostConf \<and>
        Contains h ''s3'' \<and> (\<forall>k\<in>set pre. Hosts doc k \<noteq> None \<longrightarrow> \<not> Contains k ''s3'')"
  have cond: "(\<exists>pre post hostConf.
                    order = pre @ h # post \<and> Hosts doc h = Some hostConf \<and> Contains h ''s3'' \<and>
                    (\<forall>k\<in>set pre. Hosts doc k \<noteq> None \<longrightarrow> \<not> Contains k ''s3'') \<and> ?del hostConf)
     \<longleftrightarrow> (\<exists>hostConf. firstS3Host order (Hosts doc) = Some (h, hostConf) \<and> ?del hostConf)"
  proof
    assume "\<exists>pre post hostConf.
                    order = pre @ h # post \<and> Hosts doc h = Some hostConf \<and> Contains h ''s3'' \<and>
                    (\<forall>k\<in>set pre. Hosts doc k \<noteq> None \<longrightarrow> \<not> Contains k ''s3'') \<and> ?del hostConf"
    then obtain pre post hostConf where p: "order = pre @ h # post \<and> Hosts doc h = Some hostConf \<and>
        Contains h ''s3'' \<and> (\<forall>k\<in>set pre. Hosts doc k \<noteq> None \<longrightarrow> \<not> Contains k ''s3'')"
      and d: "?del hostConf" by blast
    from p have "firstS3Host order (Hosts doc) = Some (h, hostConf)"
      unfolding firstS3Host_iff by (intro exI)
    with d show "\<exists>hostConf. firstS3Host order (Hosts doc) = Some (h, hostConf) \<and> ?del hostConf"
      by (intro exI conjI)
  next
    assume "\<exists>hostConf. firstS3Host order (Hosts doc) = Some (h, hostConf) \<and> ?del hostConf"
    then obtain hostConf where f: "firstS3Host order (Hosts doc) = Some (h, hostConf)"
      and d: "?del hostConf" by blast
    from f obtain pre post where p: "order = pre @ h # post \<and> Hosts doc h = Some hostConf \<and>
        Contains h ''s3'' \<and> (\<forall>k\<in>set pre. Hosts doc k \<noteq> None \<longrightarrow> \<not> Contains k ''s3'')"
      unfolding firstS3Host_iff by (elim exE)
    from p d have "order = pre @ h # post \<and> Hosts doc h = Some hostConf \<and> Contains h ''s3'' \<and>
                    (\<forall>k\<in>set pre. Hosts doc k \<noteq> None \<longrightarrow> \<not> Contains k ''s3'') \<and> ?del hostConf"
      by blast
    then show "\<exists>pre post hostConf.
                    order = pre @ h # post \<and> Hosts doc h = Some hostConf \<and> Contains h ''s3'' \<and>
                    (\<forall>k\<in>set pre. Hosts doc k \<noteq> None \<longrightarrow> \<not> Contains k ''s3'') \<and> ?del hostConf"
      by (intro exI)
  qed
  have model: "\<exists>new. migrateConfigV5ToV6 g order (Some doc) = Inr (Some new) \<and>
           Hosts new h =
             (case firstS3Host order (Hosts doc) of
                None \<Rightarrow> Hosts doc h
              | Some (host, hostConf) \<Rightarrow>
                  if h = host \<and> ?del hostConf then None else Hosts doc h)"
    using assms
    by (auto simp: migrateConfigV5ToV6_def Let_def split: option.splits prod.splits)
  then obtain new where new: "migrateConfigV5ToV6 g order (Some doc) = Inr (Some new)"
    "Hosts new h =
             (case firstS3Host order (Hosts doc) of
                None \<Rightarrow> Hosts doc h
              | Some (host, hostConf) \<Rightarrow>
                  if h = host \<and> ?del hostConf then None else Hosts doc h)" by blast
  have "Hosts new h =
     (if \<exists>hostConf. firstS3Host order (Hosts doc) = Some (h, hostConf) \<and> ?del hostConf
      then None else Hosts doc h)"
    unfolding new(2) by (auto split: option.splits)
  then show ?thesis using new(1) unfolding cond by blast
qed

text \<open>The theorem at the document of the counterexample, for both of its hosts.\<close>

theorem migrateConfigV5ToV6_hosts_witness:
  "(\<exists>new. migrateConfigV5ToV6 defaults [''play.minio.io:9000'', ''s3.amazonaws.com'']
        (Some \<lparr>Version = ''5'', Aliases = Some Map.empty,
               Hosts = [''play.minio.io:9000'' \<mapsto> defaultCredentials,
                        ''s3.amazonaws.com'' \<mapsto> defaultCredentials]\<rparr>) = Inr (Some new) \<and>
      Hosts new ''s3.amazonaws.com'' = None) \<and>
   (\<exists>new. migrateConfigV5ToV6 defaults [''play.minio.io:9000'', ''s3.amazonaws.com'']
        (Some \<lparr>Version = ''5'', Aliases = Some Map.empty,
               Hosts = [''play.minio.io:9000'' \<mapsto> defaultCredentials,
                        ''s3.amazonaws.com'' \<mapsto> defaultCredentials]\<rparr>) = Inr (Some new) \<and>
      Hosts new ''play.minio.io:9000'' = Some defaultCredentials)"
proof -
  let ?hosts = "[''play.minio.io:9000'' \<mapsto> defaultCredentials,
                 ''s3.amazonaws.com'' \<mapsto> defaultCredentials]"
  let ?doc = "\<lparr>Version = ''5'', Aliases = Some Map.empty, Hosts = ?hosts\<rparr>"
  let ?order = "[''play.minio.io:9000'', ''s3.amazonaws.com'']"
  have v: "Version ?doc = ''5''" by simp
  have al: "Aliases ?doc = Some Map.empty" by simp
  have a: "''s3.amazonaws.com'' \<noteq> ''*s3*amazonaws.com''"
    and b: "''s3.amazonaws.com'' \<noteq> ''*storage.googleapis.com''"
    and c: "''play.minio.io:9000'' \<noteq> ''*s3*amazonaws.com''"
    and d: "''play.minio.io:9000'' \<noteq> ''*storage.googleapis.com''" by simp_all
  have first: "?order = [''play.minio.io:9000''] @ ''s3.amazonaws.com'' # [] \<and>
      Hosts ?doc ''s3.amazonaws.com'' = Some defaultCredentials \<and>
      Contains ''s3.amazonaws.com'' ''s3'' \<and>
      (\<forall>k\<in>set [''play.minio.io:9000'']. Hosts ?doc k \<noteq> None \<longrightarrow> \<not> Contains k ''s3'') \<and>
      (AccessKeyID defaultCredentials = globalAccessKeyID defaults \<or>
       SecretAccessKey defaultCredentials = globalSecretAccessKey defaults \<or>
       AccessKeyID defaultCredentials = [] \<or> SecretAccessKey defaultCredentials = [])"
    by (simp add: contains_s3 defaults_def defaultCredentials_def)
  have deleted: "\<exists>pre post hostConf.
      ?order = pre @ ''s3.amazonaws.com'' # post \<and>
      Hosts ?doc ''s3.amazonaws.com'' = Some hostConf \<and> Contains ''s3.amazonaws.com'' ''s3'' \<and>
      (\<forall>k\<in>set pre. Hosts ?doc k \<noteq> None \<longrightarrow> \<not> Contains k ''s3'') \<and>
      (AccessKeyID hostConf = globalAccessKeyID defaults \<or>
       SecretAccessKey hostConf = globalSecretAccessKey defaults \<or>
       AccessKeyID hostConf = [] \<or> SecretAccessKey hostConf = [])"
    by (rule exI [of _ "[''play.minio.io:9000'']"], rule exI [of _ "[]"],
        rule exI [of _ defaultCredentials]) (rule first)
  have kept: "\<not> (\<exists>pre post hostConf.
      ?order = pre @ ''play.minio.io:9000'' # post \<and>
      Hosts ?doc ''play.minio.io:9000'' = Some hostConf \<and> Contains ''play.minio.io:9000'' ''s3'' \<and>
      (\<forall>k\<in>set pre. Hosts ?doc k \<noteq> None \<longrightarrow> \<not> Contains k ''s3'') \<and>
      (AccessKeyID hostConf = globalAccessKeyID defaults \<or>
       SecretAccessKey hostConf = globalSecretAccessKey defaults \<or>
       AccessKeyID hostConf = [] \<or> SecretAccessKey hostConf = []))"
    by (simp add: contains_s3)
  have k: "Hosts ?doc ''play.minio.io:9000'' = Some defaultCredentials" by simp
  from migrateConfigV5ToV6_hosts [OF v al a b, of defaults ?order]
  obtain new1 where n1: "migrateConfigV5ToV6 defaults ?order (Some ?doc) = Inr (Some new1)"
    and h1: "Hosts new1 ''s3.amazonaws.com'' = None"
    unfolding if_P [OF deleted] by (elim exE conjE) (rule that)
  from migrateConfigV5ToV6_hosts [OF v al c d, of defaults ?order, unfolded if_not_P [OF kept]]
  obtain new2 where n2: "migrateConfigV5ToV6 defaults ?order (Some ?doc) = Inr (Some new2)"
    and h2: "Hosts new2 ''play.minio.io:9000'' = Some defaultCredentials"
    unfolding k by (elim exE conjE) (rule that)
  have one: "\<exists>new. migrateConfigV5ToV6 defaults ?order (Some ?doc) = Inr (Some new) \<and>
      Hosts new ''s3.amazonaws.com'' = None"
    by (rule exI [of _ new1]) (rule conjI [OF n1 h1])
  have two: "\<exists>new. migrateConfigV5ToV6 defaults ?order (Some ?doc) = Inr (Some new) \<and>
      Hosts new ''play.minio.io:9000'' = Some defaultCredentials"
    by (rule exI [of _ new2]) (rule conjI [OF n2 h2])
  show ?thesis by (rule conjI [OF one two])
qed

section \<open>C9: the fix-up of version 6 host keys\<close>

text \<open>
  Claim C9 fails on the code. A host key that neither begins with \<open>http\<close> nor is one of the
  six well-known names is written nowhere: the entry of \<open>myminio.example.com:9000\<close> is lost,
  under its own key and under every other key. (\<open>fixConfigV6\<close> ends its loop body with
  \<open>newConfig.Hosts[host] = hostCfg\<close>; this loop does not.)
\<close>

theorem fixConfigV6ForHosts_drops_host:
  "fixConfigV6ForHosts goos [''myminio.example.com:9000'', ''s3.amazonaws.com'']
     (Some \<lparr>Version = ''6'', Aliases = Some Map.empty,
            Hosts = [''myminio.example.com:9000'' \<mapsto> someCredentials,
                     ''s3.amazonaws.com'' \<mapsto> someCredentials]\<rparr>)
   = Some \<lparr>Version = ''6'', Aliases = Some Map.empty,
           Hosts = [''https://s3.amazonaws.com'' \<mapsto> someCredentials]\<rparr>"
  by (auto simp: fixConfigV6ForHosts_def fixHostStep_def qualify_def String_def zeroURL_def
      HasPrefix_def ReplaceChar_def Let_def fun_upd_def)

section \<open>C10: validation of a type C copy\<close>

lemma Stat_denied:
  "Stat \<lparr>api = deniedAPI, hostURL = objectURL ''/bucket/dir'', virtualStyle = False\<rparr> =
     Inl (ApiError (ErrorResponse ''AccessDenied''))"
  unfolding Stat_def bucketDir_split by (simp add: deniedAPI_def ToErrorResponse_def)

lemma checkCopySyntaxTypeC_nil:
  assumes "url2Stat srcURL = (None, Some e)" and "isURLPrefixExists srcURL"
  shows "checkCopySyntaxTypeC url2Stat isURLPrefixExists [srcURL] tgtURL isRecursive = NilDereference"
  using assms by (simp add: checkCopySyntaxTypeC_def)

text \<open>
  Claim C10 fails on the code. \<open>Stat\<close> of the source fails (access denied) and returns no
  content; the source exists as a listing prefix, so the guard does not abort; the next
  statement reads \<open>srcContent.Type\<close> through the \<open>nil\<close> pointer.
\<close>

theorem checkCopySyntaxTypeC_nil_dereference:
  "checkCopySyntaxTypeC
     (\<lambda>url. statResults (Stat \<lparr>api = deniedAPI, hostURL = objectURL ''/bucket/dir'',
                                 virtualStyle = False\<rparr>))
     (\<lambda>url. True)
     [''https://play.minio.io:9000/bucket/dir''] ''https://play.minio.io:9000/other/'' True
   = NilDereference"
  by (simp add: checkCopySyntaxTypeC_def Stat_denied statResults_def)


end
